theory Spec2Isabelle
  imports Complex_Main
begin

section \<open>Numbers and arrays\<close>

text \<open>
  The program computes on numpy arrays of 64-bit floats, in the log domain. A float is
  modelled by its special values and, where it is finite, by a real number: rounding,
  overflow and underflow of finite values are not modelled, while the arithmetic of
  \<open>-inf\<close>, \<open>+inf\<close> and \<open>nan\<close> (which the code produces on purpose: \<open>log 0 = -inf\<close>)
  follows IEEE 754 as numpy applies it.
\<close>

datatype npfloat = NaN | NInf | Fin real | PInf

fun fl_add :: "npfloat \<Rightarrow> npfloat \<Rightarrow> npfloat" where
  "fl_add NaN y = NaN"
| "fl_add x NaN = NaN"
| "fl_add (Fin a) (Fin b) = Fin (a + b)"
| "fl_add PInf NInf = NaN"
| "fl_add NInf PInf = NaN"
| "fl_add PInf y = PInf"
| "fl_add x PInf = PInf"
| "fl_add NInf y = NInf"
| "fl_add x NInf = NInf"

fun fl_neg :: "npfloat \<Rightarrow> npfloat" where
  "fl_neg NaN = NaN"
| "fl_neg NInf = PInf"
| "fl_neg (Fin a) = Fin (- a)"
| "fl_neg PInf = NInf"

definition fl_sub :: "npfloat \<Rightarrow> npfloat \<Rightarrow> npfloat" where
  "fl_sub x y = fl_add x (fl_neg y)"

fun fl_mul :: "npfloat \<Rightarrow> npfloat \<Rightarrow> npfloat" where
  "fl_mul NaN y = NaN"
| "fl_mul x NaN = NaN"
| "fl_mul (Fin a) (Fin b) = Fin (a * b)"
| "fl_mul (Fin a) PInf = (if a = 0 then NaN else if 0 < a then PInf else NInf)"
| "fl_mul (Fin a) NInf = (if a = 0 then NaN else if 0 < a then NInf else PInf)"
| "fl_mul PInf (Fin b) = (if b = 0 then NaN else if 0 < b then PInf else NInf)"
| "fl_mul NInf (Fin b) = (if b = 0 then NaN else if 0 < b then NInf else PInf)"
| "fl_mul PInf PInf = PInf"
| "fl_mul NInf NInf = PInf"
| "fl_mul PInf NInf = NInf"
| "fl_mul NInf PInf = NInf"

fun fl_div :: "npfloat \<Rightarrow> npfloat \<Rightarrow> npfloat" where
  "fl_div NaN y = NaN"
| "fl_div x NaN = NaN"
| "fl_div (Fin a) (Fin b) =
     (if b = 0 then (if a = 0 then NaN else if 0 < a then PInf else NInf) else Fin (a / b))"
| "fl_div (Fin a) PInf = Fin 0"
| "fl_div (Fin a) NInf = Fin 0"
| "fl_div PInf (Fin b) = (if 0 \<le> b then PInf else NInf)"
| "fl_div NInf (Fin b) = (if 0 \<le> b then NInf else PInf)"
| "fl_div PInf y = NaN"
| "fl_div NInf y = NaN"

text \<open>\<open>np.exp\<close> and \<open>np.log\<close>.\<close>

fun fl_exp :: "npfloat \<Rightarrow> npfloat" where
  "fl_exp NaN = NaN"
| "fl_exp NInf = Fin 0"
| "fl_exp (Fin a) = Fin (exp a)"
| "fl_exp PInf = PInf"

fun fl_log :: "npfloat \<Rightarrow> npfloat" where
  "fl_log NaN = NaN"
| "fl_log NInf = NaN"
| "fl_log (Fin a) = (if 0 < a then Fin (ln a) else if a = 0 then NInf else NaN)"
| "fl_log PInf = PInf"

text \<open>\<open>np.logaddexp(x, y) = log(exp(x) + exp(y))\<close>, with numpy's special cases.\<close>

fun logaddexp :: "npfloat \<Rightarrow> npfloat \<Rightarrow> npfloat" where
  "logaddexp NaN y = NaN"
| "logaddexp x NaN = NaN"
| "logaddexp PInf y = PInf"
| "logaddexp x PInf = PInf"
| "logaddexp NInf y = y"
| "logaddexp x NInf = x"
| "logaddexp (Fin a) (Fin b) = Fin (ln (exp a + exp b))"

text \<open>Comparisons: every comparison with \<open>nan\<close> is false.\<close>

fun fl_less :: "npfloat \<Rightarrow> npfloat \<Rightarrow> bool" where
  "fl_less NaN y = False"
| "fl_less x NaN = False"
| "fl_less PInf y = False"
| "fl_less x PInf = True"
| "fl_less x NInf = False"
| "fl_less NInf y = True"
| "fl_less (Fin a) (Fin b) = (a < b)"

definition fl_isnan :: "npfloat \<Rightarrow> bool" where
  "fl_isnan x = (x = NaN)"

definition fl_eq :: "npfloat \<Rightarrow> npfloat \<Rightarrow> bool" where
  "fl_eq x y = (x = y \<and> x \<noteq> NaN)"

definition fl_le :: "npfloat \<Rightarrow> npfloat \<Rightarrow> bool" where
  "fl_le x y = (fl_less x y \<or> fl_eq x y)"

text \<open>\<open>np.maximum\<close>, which propagates \<open>nan\<close>, and \<open>np.amax\<close> over a vector.\<close>

definition fl_max :: "npfloat \<Rightarrow> npfloat \<Rightarrow> npfloat" where
  "fl_max x y = (if x = NaN \<or> y = NaN then NaN else if fl_less x y then y else x)"

type_synonym vec = "npfloat list"
type_synonym mat = "npfloat list list"

text \<open>Python exceptions the modelled code can raise.\<close>

datatype error =
  IndexError | ValueError | AssertionError | AttributeError | TypeError | UnboundLocalError
  | DegenerateDistributionError

text \<open>
  Reductions of a ufunc start from the first element. On an empty axis numpy raises
  ValueError for \<open>logaddexp\<close> (no identity); the callers below guard that case, and the
  value given here for the empty list is never used by them.
\<close>

fun logaddexp_reduce :: "vec \<Rightarrow> npfloat" where
  "logaddexp_reduce [] = NInf"
| "logaddexp_reduce (x # xs) = foldl logaddexp x xs"

fun amax :: "vec \<Rightarrow> npfloat" where
  "amax [] = NInf"
| "amax (x # xs) = foldl fl_max x xs"

definition zeros :: "nat \<Rightarrow> vec" where
  "zeros K = replicate K (Fin 0)"

definition zeros2 :: "nat \<Rightarrow> nat \<Rightarrow> mat" where
  "zeros2 T K = replicate T (zeros K)"

text \<open>Elementwise operations on arrays of equal shape, and a vector broadcast over rows.\<close>

definition vadd :: "vec \<Rightarrow> vec \<Rightarrow> vec" where
  "vadd u v = map2 fl_add u v"

definition vsub :: "vec \<Rightarrow> vec \<Rightarrow> vec" where
  "vsub u v = map2 fl_sub u v"

definition vmul :: "vec \<Rightarrow> vec \<Rightarrow> vec" where
  "vmul u v = map2 fl_mul u v"

definition vlogaddexp :: "vec \<Rightarrow> vec \<Rightarrow> vec" where
  "vlogaddexp u v = map2 logaddexp u v"

definition madd :: "mat \<Rightarrow> mat \<Rightarrow> mat" where
  "madd X Y = map2 vadd X Y"

definition np_log :: "mat \<Rightarrow> mat" where
  "np_log X = map (map fl_log) X"

text \<open>\<open>m[start:stop]\<close> for \<open>0 \<le> start\<close>: the slice is clipped at the end of the array.\<close>

definition slice :: "'a list \<Rightarrow> nat \<Rightarrow> nat \<Rightarrow> 'a list" where
  "slice xs start stop = take (stop - start) (drop start xs)"

text \<open>\<open>m[i] = v\<close> and \<open>m[i]\<close> with Python's negative indices.\<close>

definition py_index :: "nat \<Rightarrow> int \<Rightarrow> nat" where
  "py_index n i = (if i < 0 then nat (int n + i) else nat i)"

definition set_row :: "'a list \<Rightarrow> int \<Rightarrow> 'a \<Rightarrow> 'a list" where
  "set_row m i v = m[py_index (length m) i := v]"

text \<open>Reductions along axis 0 (over the rows) and axis 1 (within each row).\<close>

fun logaddexp_reduce0 :: "mat \<Rightarrow> vec" where
  "logaddexp_reduce0 [] = []"
| "logaddexp_reduce0 (r # rs) = foldl vlogaddexp r rs"

definition logaddexp_reduce1 :: "mat \<Rightarrow> vec" where
  "logaddexp_reduce1 X = map logaddexp_reduce X"

text \<open>\<open>np.cumsum(m, axis=0)\<close> and \<open>np.sum(m, axis=0)\<close> for a matrix of \<open>K\<close> columns.\<close>

fun cumsum_from :: "vec \<Rightarrow> mat \<Rightarrow> mat" where
  "cumsum_from acc [] = []"
| "cumsum_from acc (r # rs) = vadd acc r # cumsum_from (vadd acc r) rs"

fun cumsum0 :: "mat \<Rightarrow> mat" where
  "cumsum0 [] = []"
| "cumsum0 (r # rs) = r # cumsum_from r rs"

definition sum0 :: "nat \<Rightarrow> mat \<Rightarrow> vec" where
  "sum0 K X = foldl vadd (zeros K) X"

section \<open>HMM messages\<close>

text \<open>
  A duration distribution is given by the three methods the code calls on it, each
  evaluated at a duration \<open>1, 2, ...\<close>.
\<close>

record dur_distn =
  pmf :: "nat \<Rightarrow> npfloat"
  log_pmf :: "nat \<Rightarrow> npfloat"
  log_sf :: "nat \<Rightarrow> npfloat"

text \<open>
  The parts of \<open>self.model\<close> the code reads: \<open>model.state_dim\<close>,
  \<open>model.init_state_distn.pi_0\<close>, \<open>model.trans_distn.A\<close>, the \<open>log_likelihood\<close> methods of
  \<open>model.obs_distns\<close> (from the data to one value per time step) and \<open>model.dur_distns\<close>.
\<close>

record 'o model =
  state_dim :: nat
  pi_0 :: vec
  trans_A :: mat
  obs_distns :: "('o list \<Rightarrow> vec) list"
  dur_distns :: "dur_distn list"

text \<open>\<open>HMMStatesPython.messages_backwards\<close>.\<close>

definition hmm_backwards_step :: "mat \<Rightarrow> mat \<Rightarrow> mat \<Rightarrow> nat \<Rightarrow> mat" where
  "hmm_backwards_step Al aBl betal t =
     betal[t := logaddexp_reduce1
        (map (\<lambda>row. vadd (vadd row (betal ! (t + 1))) (aBl ! (t + 1))) Al)]"

definition hmm_messages_backwards :: "'o model \<Rightarrow> mat \<Rightarrow> mat" where
  "hmm_messages_backwards m aBl =
     (let betal = map (\<lambda>row. zeros (length row)) aBl;
          Al = np_log (trans_A m);
          T = length aBl
      in foldl (hmm_backwards_step Al aBl) betal (rev [0..<T - 1]))"

section \<open>HSMM messages\<close>

text \<open>
  \<open>HSMMStatesPython.cumulative_likelihoods\<close> and \<open>likelihood_block\<close> read the cached
  table \<open>self.aBl\<close>; \<open>stop\<close> is \<open>None\<close> for a block that runs to the end.
\<close>

definition ncols :: "mat \<Rightarrow> nat" where
  "ncols X = (case X of [] \<Rightarrow> 0 | r # rs \<Rightarrow> length r)"

definition cumulative_likelihoods :: "mat \<Rightarrow> nat \<Rightarrow> nat \<Rightarrow> mat" where
  "cumulative_likelihoods aBl start stop = cumsum0 (slice aBl start stop)"

definition likelihood_block :: "mat \<Rightarrow> nat \<Rightarrow> nat option \<Rightarrow> vec" where
  "likelihood_block aBl start stop =
     sum0 (ncols aBl)
       (case stop of None \<Rightarrow> drop start aBl | Some e \<Rightarrow> slice aBl start e)"

text \<open>
  \<open>HSMMStatesPython.messages_backwards\<close>. The loop body at \<open>t\<close>, on the pair
  \<open>(betal, betastarl)\<close>; \<open>self.censoring\<close> and \<open>self.aBl\<close> are passed explicitly. The
  write to \<open>betal[t-1]\<close> goes to the last row at \<open>t = 0\<close>, as Python's index \<open>-1\<close> does.
\<close>

definition hsmm_betastarl_row ::
  "bool \<Rightarrow> mat \<Rightarrow> mat \<Rightarrow> mat \<Rightarrow> nat \<Rightarrow> nat \<Rightarrow> mat \<Rightarrow> nat \<Rightarrow> vec" where
  "hsmm_betastarl_row censoring aBl aDl aDsl trunc T betal t =
     (let r = logaddexp_reduce0
            (madd (madd (slice betal t (t + trunc)) (cumulative_likelihoods aBl t (t + trunc)))
               (take (min trunc (T - t)) aDl))
      in if T - t < trunc \<and> censoring
         then vlogaddexp r (vadd (likelihood_block aBl t None) (aDsl ! (T - t - 1)))
         else r)"

definition hsmm_backwards_step ::
  "bool \<Rightarrow> mat \<Rightarrow> mat \<Rightarrow> mat \<Rightarrow> mat \<Rightarrow> nat \<Rightarrow> nat \<Rightarrow> mat \<times> mat \<Rightarrow> nat \<Rightarrow> mat \<times> mat" where
  "hsmm_backwards_step censoring aBl Al aDl aDsl trunc T s t =
     (let betal = fst s; betastarl = snd s;
          row = hsmm_betastarl_row censoring aBl aDl aDsl trunc T betal t
      in (set_row betal (int t - 1) (logaddexp_reduce1 (map (\<lambda>a. vadd row a) Al)),
          betastarl[t := row]))"

definition hsmm_backwards_loop ::
  "bool \<Rightarrow> mat \<Rightarrow> mat \<Rightarrow> mat \<Rightarrow> mat \<Rightarrow> nat \<Rightarrow> nat \<Rightarrow> mat \<times> mat" where
  "hsmm_backwards_loop censoring aBl Al aDl aDsl trunc T =
     foldl (hsmm_backwards_step censoring aBl Al aDl aDsl trunc T)
       (zeros2 T (length Al), zeros2 T (length Al)) (rev [0..<T])"

text \<open>
  The whole method. With \<open>T = 0\<close> the final \<open>betal[-1] = 0.\<close> indexes an empty array
  (IndexError); with \<open>trunc = 0\<close> the first reduction is over an empty axis (ValueError).
\<close>

definition hsmm_messages_backwards ::
  "bool \<Rightarrow> mat \<Rightarrow> mat \<Rightarrow> mat \<Rightarrow> mat \<Rightarrow> nat option \<Rightarrow> error + mat \<times> mat" where
  "hsmm_messages_backwards censoring aBl Al aDl aDsl trunc =
     (let T = length aDl;
          trunc = (case trunc of None \<Rightarrow> T | Some n \<Rightarrow> n)
      in if T = 0 then Inl IndexError
         else if trunc = 0 then Inl ValueError
         else let s = hsmm_backwards_loop censoring aBl Al aDl aDsl trunc T
              in Inr (set_row (fst s) (- 1) (zeros (length Al)), snd s))"

text \<open>
  The duration tables that \<open>HSMMStatesPython.resample\<close> fills and passes to
  \<open>messages_backwards\<close>: row \<open>d\<close> holds \<open>log_pmf(d+1)\<close>, or \<open>log_sf(d+1)\<close>, of every
  state's duration distribution, for the durations \<open>1, ..., T\<close>.
\<close>

definition duration_table :: "(dur_distn \<Rightarrow> nat \<Rightarrow> npfloat) \<Rightarrow> 'o model \<Rightarrow> nat \<Rightarrow> mat" where
  "duration_table f m T = map (\<lambda>d. map (\<lambda>dist. f dist (d + 1)) (dur_distns m)) [0..<T]"

section \<open>Shapes and the formulas of the specification\<close>

text \<open>
  The arrays the methods are called on are rectangular: \<open>shape T K X\<close> says that \<open>X\<close> has
  \<open>T\<close> rows of \<open>K\<close> entries. numpy refuses to add arrays whose shapes do not agree; the
  theorems below assume the shapes that \<open>resample\<close> builds. \<open>fl_sum\<close> is a sum taken from
  left to right.
\<close>

definition shape :: "nat \<Rightarrow> nat \<Rightarrow> mat \<Rightarrow> bool" where
  "shape T K X = (length X = T \<and> list_all (\<lambda>r. length r = K) X)"

fun fl_sum :: "vec \<Rightarrow> npfloat" where
  "fl_sum [] = Fin 0"
| "fl_sum (x # xs) = foldl fl_add x xs"

text \<open>The table that one step of the HSMM backward recursion reduces along axis 0.\<close>

definition hsmm_terms :: "mat \<Rightarrow> mat \<Rightarrow> mat \<Rightarrow> nat \<Rightarrow> nat \<Rightarrow> nat \<Rightarrow> mat" where
  "hsmm_terms betal aBl aDl trunc T t =
     madd (madd (slice betal t (t + trunc)) (cumulative_likelihoods aBl t (t + trunc)))
       (take (min trunc (T - t)) aDl)"

text \<open>
  The specification's value of \<open>betastarl[t,k]\<close>: the log-sum-exp over the durations
  \<open>d = 0, ..., min(trunc, T-t) - 1\<close> of
  \<open>betal[t+d,k] + sum_{s=t}^{t+d} aBl[s,k] + aDl[d,k]\<close>, to which the censored term
  \<open>likelihood_block(t,T,k) + aDsl[T-t-1,k]\<close> is log-added when censoring is on and
  \<open>T - t < trunc\<close>.
\<close>

definition hsmm_betastarl_spec ::
  "bool \<Rightarrow> mat \<Rightarrow> mat \<Rightarrow> mat \<Rightarrow> nat \<Rightarrow> nat \<Rightarrow> mat \<Rightarrow> nat \<Rightarrow> nat \<Rightarrow> npfloat" where
  "hsmm_betastarl_spec censoring aBl aDl aDsl trunc T betal t k =
     (let base = logaddexp_reduce
            (map (\<lambda>d. fl_add (fl_add (betal ! (t + d) ! k)
                            (fl_sum (map (\<lambda>s. aBl ! s ! k) [t..<t + d + 1])))
                          (aDl ! d ! k))
               [0..<min trunc (T - t)])
      in if censoring \<and> T - t < trunc
         then logaddexp base
                (fl_add (foldl fl_add (Fin 0) (map (\<lambda>s. aBl ! s ! k) [t..<T]))
                   (aDsl ! (T - t - 1) ! k))
         else base)"

section \<open>The geometric-tail approximation\<close>

text \<open>
  \<open>HSMMStatesGeoApproximation\<close>. The attributes of the instance that
  \<open>messages_backwards\<close> reads. \<open>self.model\<close>, \<open>self.censoring\<close> and \<open>self.aBl\<close> are assigned
  by the constructors and by \<open>resample\<close>. No statement of the file assigns
  \<open>self.state_dim\<close>, nor an attribute \<open>transition_distn\<close> of the \<open>HMMStates\<close> object
  \<open>self._hmm_states\<close>: each is an optional attribute here, absent unless set from
  outside, and reading an absent attribute raises AttributeError.
\<close>

record 'o geo_self =
  model_of :: "'o model"
  censoring_of :: bool
  aBl_of :: mat
  state_dim_attr :: "nat option"
  hmm_transition_distn_attr :: bool

text \<open>What the constructors of the file leave in the instance.\<close>

definition geo_init :: "'o model \<Rightarrow> bool \<Rightarrow> mat \<Rightarrow> 'o geo_self" where
  "geo_init m censoring aBl =
     \<lparr>model_of = m, censoring_of = censoring, aBl_of = aBl,
      state_dim_attr = None, hmm_transition_distn_attr = False\<rparr>"

text \<open>
  \<open>X.flat[::n+1] = v\<close>: every \<open>(n+1)\<close>-th entry of \<open>X\<close> in row-major order is overwritten,
  the \<open>i\<close>-th of them by \<open>v i\<close>.
\<close>

definition flat_stride_set :: "mat \<Rightarrow> nat \<Rightarrow> (nat \<Rightarrow> npfloat) \<Rightarrow> mat" where
  "flat_stride_set X n v =
     map (\<lambda>r. map (\<lambda>c. if (r * ncols X + c) mod (n + 1) = 0
                         then v ((r * ncols X + c) div (n + 1)) else X ! r ! c)
                [0..<ncols X])
       [0..<length X]"

text \<open>
  numpy's broadcasting of two one-dimensional arrays under an elementwise operation: the
  lengths agree, or one of them is 1; otherwise ValueError.
\<close>

definition broadcast2 :: "(npfloat \<Rightarrow> npfloat \<Rightarrow> npfloat) \<Rightarrow> vec \<Rightarrow> vec \<Rightarrow> error + vec" where
  "broadcast2 f u v =
     (if length u = length v then Inr (map2 f u v)
      else if length u = 1 then Inr (map (f (hd u)) v)
      else if length v = 1 then Inr (map (\<lambda>x. f x (hd v)) u)
      else Inl ValueError)"

text \<open>
  \<open>X *= w[:,na]\<close> in place: row \<open>r\<close> is multiplied by \<open>w[r]\<close>, or every row by \<open>w[0]\<close>
  when \<open>w\<close> has one entry; any other length of \<open>w\<close> cannot be broadcast to the shape of \<open>X\<close>
  (ValueError). \<open>X.sum(1)\<close>: the row sums.
\<close>

definition scale_rows :: "mat \<Rightarrow> vec \<Rightarrow> error + mat" where
  "scale_rows X w =
     (if length w = length X then Inr (map2 (\<lambda>row a. map (\<lambda>x. fl_mul x a) row) X w)
      else if length w = 1 then Inr (map (map (\<lambda>x. fl_mul x (hd w))) X)
      else Inl ValueError)"

definition sum1 :: "mat \<Rightarrow> vec" where
  "sum1 X = map (foldl fl_add (Fin 0)) X"

definition geo_thediag :: "dur_distn list \<Rightarrow> nat \<Rightarrow> vec" where
  "geo_thediag ds trunc =
     map (\<lambda>d. fl_exp (fl_sub (log_pmf d (trunc + 1)) (log_pmf d trunc))) ds"

text \<open>
  The auxiliary transition matrix \<open>hmm_A\<close>, with \<open>self.state_dim = n\<close>. The second
  assignment through \<open>flat\<close> takes the values of \<open>thediag\<close> in turn, starting over when they
  run out.
\<close>

definition geo_hmm_A :: "nat \<Rightarrow> mat \<Rightarrow> vec \<Rightarrow> error + mat" where
  "geo_hmm_A n A thediag =
     (let hmm_A = flat_stride_set A n (\<lambda>i. Fin 0)
      in case broadcast2 fl_div (map (\<lambda>x. fl_sub (Fin 1) x) thediag) (sum1 hmm_A) of
           Inl e \<Rightarrow> Inl e
         | Inr w \<Rightarrow>
             (case scale_rows hmm_A w of
                Inl e \<Rightarrow> Inl e
              | Inr hmm_A \<Rightarrow>
                  Inr (flat_stride_set hmm_A n (\<lambda>i. thediag ! (i mod length thediag)))))"

text \<open>The loop of \<open>HSMMStatesGeoApproximation.messages_backwards\<close> and its body at \<open>t\<close>.\<close>

definition geo_betastarl_row ::
  "mat \<Rightarrow> bool \<Rightarrow> mat \<Rightarrow> mat \<Rightarrow> mat \<Rightarrow> nat \<Rightarrow> nat \<Rightarrow> mat \<Rightarrow> nat \<Rightarrow> vec" where
  "geo_betastarl_row hmm_betal censoring aBl aDl aDsl trunc T betal t =
     (let r = logaddexp_reduce0
            (madd (madd (slice betal t (t + trunc)) (cumulative_likelihoods aBl t (t + trunc)))
               (take (min trunc (T - t)) aDl));
          r = (if t + trunc < T
               then vlogaddexp r
                      (vadd (vadd (likelihood_block aBl t (Some (t + trunc + 1)))
                               (aDsl ! (trunc - 1)))
                         (hmm_betal ! (t + trunc)))
               else r)
      in if T - t < trunc \<and> censoring
         then vlogaddexp r (vadd (likelihood_block aBl t None) (aDsl ! (T - t - 1)))
         else r)"

definition geo_backwards_step ::
  "mat \<Rightarrow> bool \<Rightarrow> mat \<Rightarrow> mat \<Rightarrow> mat \<Rightarrow> mat \<Rightarrow> nat \<Rightarrow> nat \<Rightarrow> mat \<times> mat \<Rightarrow> nat \<Rightarrow> mat \<times> mat" where
  "geo_backwards_step hmm_betal censoring aBl Al aDl aDsl trunc T s t =
     (let betal = fst s; betastarl = snd s;
          row = geo_betastarl_row hmm_betal censoring aBl aDl aDsl trunc T betal t
      in (set_row betal (int t - 1) (logaddexp_reduce1 (map (\<lambda>a. vadd row a) Al)),
          betastarl[t := row]))"

definition geo_backwards_loop ::
  "mat \<Rightarrow> bool \<Rightarrow> mat \<Rightarrow> mat \<Rightarrow> mat \<Rightarrow> mat \<Rightarrow> nat \<Rightarrow> nat \<Rightarrow> mat \<times> mat" where
  "geo_backwards_loop hmm_betal censoring aBl Al aDl aDsl trunc T =
     foldl (geo_backwards_step hmm_betal censoring aBl Al aDl aDsl trunc T)
       (zeros2 T (length Al), zeros2 T (length Al)) (rev [0..<T])"

text \<open>
  The whole method. \<open>trunc\<close> is compared with 0 and 1 first (\<open>None > 0\<close> is false in
  Python 2). Building \<open>hmm_A\<close> raises ValueError when the number of duration
  distributions cannot be broadcast against the rows of \<open>A\<close>. \<open>hmm_A\<close> is stored in
  \<open>self._hmm_states.transition_distn.A\<close>; \<open>self._hmm_states.messages_backwards\<close> reads
  \<open>self.model.trans_distn.A\<close> of the model it shares with \<open>self\<close>.
\<close>

definition geo_messages_backwards ::
  "'o geo_self \<Rightarrow> mat \<Rightarrow> mat \<Rightarrow> mat \<Rightarrow> nat option \<Rightarrow> error + mat \<times> mat" where
  "geo_messages_backwards self Al aDl aDsl trunc =
     (case trunc of
        None \<Rightarrow> Inl AssertionError
      | Some trunc \<Rightarrow>
          if \<not> 0 < trunc then Inl AssertionError
          else if \<not> 1 < trunc then Inl AssertionError
          else (case state_dim_attr self of
                  None \<Rightarrow> Inl AttributeError
                | Some n \<Rightarrow>
                    (case geo_hmm_A n (trans_A (model_of self))
                            (geo_thediag (dur_distns (model_of self)) trunc) of
                       Inl e \<Rightarrow> Inl e
                     | Inr hmm_A \<Rightarrow>
                         if \<not> hmm_transition_distn_attr self then Inl AttributeError
                         else let hmm_betal = hmm_messages_backwards (model_of self) (aBl_of self);
                                  T = length aDl;
                                  s = geo_backwards_loop hmm_betal (censoring_of self) (aBl_of self)
                                        Al aDl aDsl trunc T
                              in if T = 0 then Inl IndexError
                                 else Inr (set_row (fst s) (- 1) (zeros (length Al)), snd s))))"

section \<open>Example inputs\<close>

text \<open>
  A duration distribution on \<open>{1, 2, 3}\<close> with probabilities \<open>1/2, 1/4, 1/4\<close>, and a model
  of two states that alternate.
\<close>

definition ex_dur :: dur_distn where
  "ex_dur =
     \<lparr>pmf = (\<lambda>n. if n = 1 then Fin (1 / 2) else if n = 2 \<or> n = 3 then Fin (1 / 4) else Fin 0),
      log_pmf = (\<lambda>n. if n = 1 then Fin (ln (1 / 2))
                      else if n = 2 \<or> n = 3 then Fin (ln (1 / 4)) else NInf),
      log_sf = (\<lambda>n. if n = 0 then Fin 0 else if n = 1 then Fin (ln (1 / 2))
                     else if n = 2 then Fin (ln (1 / 4)) else NInf)\<rparr>"

text \<open>
  Two observation distributions on the naturals: the first always emits 0, the second
  emits 0 or 1 with probability \<open>1/2\<close> each.
\<close>

definition ex_obs0 :: "nat list \<Rightarrow> vec" where
  "ex_obs0 data = map (\<lambda>x. if x = 0 then Fin 0 else NInf) data"

definition ex_obs1 :: "nat list \<Rightarrow> vec" where
  "ex_obs1 data = map (\<lambda>x. if x \<le> 1 then Fin (ln (1 / 2)) else NInf) data"

definition ex_model :: "nat model" where
  "ex_model =
     \<lparr>state_dim = 2, pi_0 = [Fin 1, Fin 0], trans_A = [[Fin 0, Fin 1], [Fin 1, Fin 0]],
      obs_distns = [ex_obs0, ex_obs1], dur_distns = [ex_dur, ex_dur]\<rparr>"

section \<open>HMM forward messages\<close>

text \<open>\<open>X.T\<close> of a matrix: row \<open>k\<close> of the result is column \<open>k\<close> of \<open>X\<close>.\<close>

definition np_T :: "mat \<Rightarrow> mat" where
  "np_T X = map (\<lambda>k. map (\<lambda>row. row ! k) X) [0..<ncols X]"

text \<open>
  \<open>HMMStatesPython.messages_forwards\<close>: \<open>T\<close> is \<open>aBl.shape[0]\<close>. On an empty table the
  first assignment indexes row 0 of an empty array (IndexError).
\<close>

definition hmm_forwards_step :: "mat \<Rightarrow> mat \<Rightarrow> mat \<Rightarrow> nat \<Rightarrow> mat" where
  "hmm_forwards_step Al aBl alphal t =
     alphal[t + 1 := vadd (logaddexp_reduce1 (map (\<lambda>col. vadd (alphal ! t) col) (np_T Al)))
                        (aBl ! (t + 1))]"

definition hmm_messages_forwards :: "'o model \<Rightarrow> mat \<Rightarrow> error + mat" where
  "hmm_messages_forwards m aBl =
     (let T = length aBl;
          alphal = zeros2 T (state_dim m);
          Al = np_log (trans_A m)
      in if T = 0 then Inl IndexError
         else Inr (foldl (hmm_forwards_step Al aBl)
                     (alphal[0 := vadd (map fl_log (pi_0 m)) (aBl ! 0)]) [0..<T - 1]))"

text \<open>
  The log-likelihood of one state path \<open>z\<^sub>0, ..., z\<^sub>n\<close> jointly with the observations
  \<open>0, ..., n\<close>: \<open>log pi0[z\<^sub>0] + aBl[0,z\<^sub>0]\<close> plus \<open>log A[z\<^sub>t\<^sub>-\<^sub>1,z\<^sub>t] + aBl[t,z\<^sub>t]\<close> for each later
  step; and the brute-force log marginal likelihood, the log-sum-exp of it over all
  \<open>K^T\<close> paths.
\<close>

definition path_step :: "mat \<Rightarrow> mat \<Rightarrow> npfloat \<times> nat \<times> nat \<Rightarrow> nat \<Rightarrow> npfloat \<times> nat \<times> nat" where
  "path_step Al aBl s k =
     (case s of (acc, prev, t) \<Rightarrow>
        (fl_add (fl_add acc (Al ! prev ! k)) (aBl ! t ! k), k, t + 1))"

fun path_loglik :: "vec \<Rightarrow> mat \<Rightarrow> mat \<Rightarrow> nat list \<Rightarrow> npfloat" where
  "path_loglik pi0l Al aBl [] = Fin 0"
| "path_loglik pi0l Al aBl (z0 # zs) =
     fst (foldl (path_step Al aBl) (fl_add (pi0l ! z0) (aBl ! 0 ! z0), z0, 1) zs)"

definition brute_force_loglik :: "'o model \<Rightarrow> mat \<Rightarrow> npfloat" where
  "brute_force_loglik m aBl =
     logaddexp_reduce
       (map (path_loglik (map fl_log (pi_0 m)) (np_log (trans_A m)) aBl)
          (List.n_lists (length aBl) [0..<state_dim m]))"

text \<open>
  Values of the log domain: \<open>-inf\<close> and the finite numbers. \<open>lin\<close> is the probability a
  log-domain value stands for. A probability is a finite number that is not negative.
\<close>

definition logval :: "npfloat \<Rightarrow> bool" where
  "logval x = (case x of NInf \<Rightarrow> True | Fin a \<Rightarrow> True | NaN \<Rightarrow> False | PInf \<Rightarrow> False)"

definition lin :: "npfloat \<Rightarrow> real" where
  "lin x = (case x of Fin a \<Rightarrow> exp a | NInf \<Rightarrow> 0 | NaN \<Rightarrow> 0 | PInf \<Rightarrow> 0)"

definition prob :: "npfloat \<Rightarrow> bool" where
  "prob x = (case x of Fin a \<Rightarrow> 0 \<le> a | NInf \<Rightarrow> False | NaN \<Rightarrow> False | PInf \<Rightarrow> False)"

text \<open>
  The state paths of \<open>n\<close> steps over \<open>K\<close> states, and matrices whose entries are all values
  of the log domain.
\<close>

definition paths :: "nat \<Rightarrow> nat \<Rightarrow> nat list set" where
  "paths K n = {z. length z = n \<and> set z \<subseteq> {..<K}}"

definition logmat :: "mat \<Rightarrow> bool" where
  "logmat X = list_all (list_all logval) X"

section \<open>The changepoint (block) engine\<close>

text \<open>
  \<open>HMMStatesPython.get_aBl\<close>: column \<open>k\<close> of the table is what \<open>log_likelihood\<close> of the
  \<open>k\<close>-th observation distribution returns on the data.
\<close>

definition hmm_get_aBl :: "'o model \<Rightarrow> 'o list \<Rightarrow> mat" where
  "hmm_get_aBl m data = map (\<lambda>t. map (\<lambda>f. f data ! t) (obs_distns m)) [0..<length data]"

text \<open>
  The instance attributes of \<open>HSMMStatesPossibleChangepoints\<close>. An attribute that holds
  Python's \<open>None\<close>, or that has not been assigned yet, is \<open>None\<close> here.
\<close>

record 'o cp_self =
  cp_model :: "'o model"
  cp_changepoints :: "(nat \<times> nat) list"
  cp_T :: nat
  cp_data :: "'o list option"
  cp_censoring :: bool
  cp_trunc :: "nat option"
  cp_aBl :: "mat option"
  cp_aBBl :: "mat option"
  cp_aDl :: "mat option"
  cp_stateseq :: "nat list"
  cp_stateseq_norep :: "nat list"
  cp_durations :: "nat list"

text \<open>\<open>self.blocklens\<close> and \<open>self.Tblock\<close>, assigned by the constructor.\<close>

definition blocklens :: "'o cp_self \<Rightarrow> int list" where
  "blocklens self = map (\<lambda>(start, stop). int stop - int start) (cp_changepoints self)"

definition Tblock :: "'o cp_self \<Rightarrow> nat" where
  "Tblock self = length (cp_changepoints self)"

text \<open>
  \<open>HSMMStatesPossibleChangepoints.get_aBl\<close>: the block table goes to \<open>self.aBBl\<close> and the
  method returns \<open>None\<close>.
\<close>

definition cp_get_aBl :: "'o cp_self \<Rightarrow> 'o list \<Rightarrow> 'o cp_self \<times> mat option" where
  "cp_get_aBl self data =
     (let aBl = hmm_get_aBl (cp_model self) data;
          aBBl = map (\<lambda>(start, stop). sum0 (state_dim (cp_model self)) (slice aBl start stop))
                   (cp_changepoints self)
      in (self\<lparr>cp_aBBl := Some aBBl\<rparr>, None))"

text \<open>\<open>block_cumulative_likelihoods\<close>, on the table in \<open>self.aBBl\<close>.\<close>

definition block_cumulative_likelihoods :: "mat \<Rightarrow> nat \<Rightarrow> nat \<Rightarrow> int list \<Rightarrow> mat" where
  "block_cumulative_likelihoods aBBl startblock stopblock possible_durations =
     take (length possible_durations) (cumsum0 (slice aBBl startblock stopblock))"

text \<open>
  The durations that end on a block boundary, from block \<open>tblock\<close> on, cut by the mask
  \<open>possible_durations < max(trunc, possible_durations[0] + 1)\<close>.
\<close>

fun cumsum_int :: "int \<Rightarrow> int list \<Rightarrow> int list" where
  "cumsum_int acc [] = []"
| "cumsum_int acc (x # xs) = (acc + x) # cumsum_int (acc + x) xs"

definition possible_durations :: "int list \<Rightarrow> nat \<Rightarrow> nat \<Rightarrow> int list" where
  "possible_durations lens trunc tblock =
     (let pd = cumsum_int 0 (drop tblock lens)
      in filter (\<lambda>d. d < max (int trunc) (hd pd + 1)) pd)"

text \<open>\<open>X[idx]\<close> for an integer array \<open>idx\<close>: the rows at these indices, negative ones
  counted from the end; \<open>X - v\<close> with the vector \<open>v\<close> broadcast over the rows.\<close>

definition index_ok :: "nat \<Rightarrow> int \<Rightarrow> bool" where
  "index_ok n i = (- int n \<le> i \<and> i < int n)"

definition rows_at :: "mat \<Rightarrow> int list \<Rightarrow> mat" where
  "rows_at X idx = map (\<lambda>i. X ! py_index (length X) i) idx"

definition msub_row :: "mat \<Rightarrow> vec \<Rightarrow> mat" where
  "msub_row X v = map (\<lambda>row. vsub row v) X"

text \<open>The body of the loop of \<open>HSMMStatesPossibleChangepoints.messages_backwards\<close>.\<close>

definition cp_betastarl_row :: "int list \<Rightarrow> mat \<Rightarrow> mat \<Rightarrow> nat \<Rightarrow> mat \<Rightarrow> nat \<Rightarrow> vec" where
  "cp_betastarl_row lens aBBl aDl trunc betal tblock =
     (let pd = possible_durations lens trunc tblock;
          truncblock = length pd;
          D = rows_at aDl (map (\<lambda>d. d - 1) pd);
          normalizer = logaddexp_reduce0 D
      in logaddexp_reduce0
           (msub_row
              (madd (madd (slice betal tblock (tblock + truncblock))
                       (block_cumulative_likelihoods aBBl tblock (tblock + truncblock) pd))
                 D)
              normalizer))"

definition cp_backwards_step ::
  "int list \<Rightarrow> mat \<Rightarrow> mat \<Rightarrow> mat \<Rightarrow> nat \<Rightarrow> mat \<times> mat \<Rightarrow> nat \<Rightarrow> mat \<times> mat" where
  "cp_backwards_step lens aBBl Al aDl trunc s tblock =
     (let betal = fst s; betastarl = snd s;
          row = cp_betastarl_row lens aBBl aDl trunc betal tblock
      in (set_row betal (int tblock - 1) (logaddexp_reduce1 (map (\<lambda>a. vadd row a) Al)),
          betastarl[tblock := row]))"

definition cp_backwards_loop ::
  "int list \<Rightarrow> mat \<Rightarrow> mat \<Rightarrow> mat \<Rightarrow> nat \<Rightarrow> nat \<Rightarrow> mat \<times> mat" where
  "cp_backwards_loop lens aBBl Al aDl trunc n =
     foldl (cp_backwards_step lens aBBl Al aDl trunc)
       (zeros2 n (length Al), zeros2 n (length Al)) (rev [0..<n])"

text \<open>
  The whole method. An index \<open>possible_durations - 1\<close> outside \<open>aDl\<close> raises IndexError in
  the first iteration that meets one; no iteration has another effect, so the check is made
  for all blocks at once. Reading \<open>self.aBBl\<close> before \<open>get_aBl\<close> has assigned it raises
  AttributeError; with no block the final \<open>betal[-1] = 0.\<close> raises IndexError; a \<open>nan\<close> in
  either result fails an assertion. On return \<open>self.aDl\<close> holds \<open>aDl\<close>.
\<close>

definition cp_messages_backwards ::
  "'o cp_self \<Rightarrow> mat \<Rightarrow> mat \<Rightarrow> mat \<Rightarrow> nat option \<Rightarrow> error + 'o cp_self \<times> mat \<times> mat" where
  "cp_messages_backwards self Al aDl aDsl trunc =
     (let n = Tblock self;
          trunc = (case trunc of None \<Rightarrow> cp_T self | Some v \<Rightarrow> v);
          lens = blocklens self
      in if n = 0 then Inl IndexError
         else (case cp_aBBl self of
                 None \<Rightarrow> Inl AttributeError
               | Some aBBl \<Rightarrow>
                   if \<not> list_all (\<lambda>tblock.
                          list_all (\<lambda>d. index_ok (length aDl) (d - 1))
                            (possible_durations lens trunc tblock)) [0..<n]
                   then Inl IndexError
                   else let s = cp_backwards_loop lens aBBl Al aDl trunc n;
                            betal = set_row (fst s) (- 1) (zeros (length Al));
                            betastarl = snd s
                        in if list_ex (list_ex fl_isnan) betal then Inl AssertionError
                           else if list_ex (list_ex fl_isnan) betastarl then Inl AssertionError
                           else Inr (self\<lparr>cp_aDl := Some aDl\<rparr>, betal, betastarl)))"

text \<open>
  Entry \<open>k\<close> of the row that the loop body computes at \<open>t\<close> on singleton blocks when \<open>m\<close>
  durations pass the mask: every term is divided by the normalizer over these durations.
\<close>

definition cp_betastarl_entry :: "mat \<Rightarrow> mat \<Rightarrow> nat \<Rightarrow> mat \<Rightarrow> nat \<Rightarrow> nat \<Rightarrow> npfloat" where
  "cp_betastarl_entry aBl aDl m betal t k =
     (let normalizer = logaddexp_reduce (map (\<lambda>d. aDl ! d ! k) [0..<m])
      in logaddexp_reduce
           (map (\<lambda>d. fl_sub
                        (fl_add (fl_add (betal ! (t + d) ! k)
                                   (fl_sum (map (\<lambda>s. aBl ! s ! k) [t..<t + d + 1])))
                           (aDl ! d ! k))
                        normalizer)
              [0..<m]))"

text \<open>
  The duration table renormalized at step \<open>t\<close>, in the specification's words for the block
  engine: \<open>normalizer[t,k]\<close> is the log-sum-exp of \<open>aDl[d,k]\<close> over the durations
  \<open>d < min(trunc, T-t)\<close> that the exact engine sums at \<open>t\<close>, and it is subtracted from every
  entry of column \<open>k\<close>.
\<close>

definition cp_normalizer :: "mat \<Rightarrow> nat \<Rightarrow> nat \<Rightarrow> nat \<Rightarrow> nat \<Rightarrow> npfloat" where
  "cp_normalizer aDl trunc T t k =
     logaddexp_reduce (map (\<lambda>d. aDl ! d ! k) [0..<min trunc (T - t)])"

definition cp_renormalized :: "mat \<Rightarrow> nat \<Rightarrow> nat \<Rightarrow> nat \<Rightarrow> mat" where
  "cp_renormalized aDl trunc T t =
     map (\<lambda>row. map (\<lambda>k. fl_sub (row ! k) (cp_normalizer aDl trunc T t k)) [0..<length row]) aDl"

text \<open>The changepoints \<open>[(0,1), (1,2), ..., (T-1,T)]\<close>.\<close>

definition singleton_changepoints :: "nat \<Rightarrow> (nat \<times> nat) list" where
  "singleton_changepoints T = map (\<lambda>t. (t, t + 1)) [0..<T]"

text \<open>A block engine on \<open>T\<close> singleton blocks, as its constructor leaves it.\<close>

definition ex_cp_self :: "nat \<Rightarrow> nat cp_self" where
  "ex_cp_self T =
     \<lparr>cp_model = ex_model, cp_changepoints = singleton_changepoints T, cp_T = T,
      cp_data = None, cp_censoring = True, cp_trunc = None, cp_aBl = None, cp_aBBl = None,
      cp_aDl = None, cp_stateseq = [], cp_stateseq_norep = [], cp_durations = []\<rparr>"

section \<open>Forward sampling\<close>

text \<open>
  The random numbers: \<open>u n\<close> is what the \<open>n\<close>-th draw of a uniform number in \<open>[0, 1)\<close>
  returns, whether by \<open>random()\<close> or inside \<open>sample_discrete\<close>; every sampling function takes
  the number of draws made so far and returns the new count.
\<close>

type_synonym rng = "nat \<Rightarrow> real"

text \<open>
  Modelled from the spec: \<open>util.stats.sample_discrete\<close> is imported and not part of the
  source. The index drawn in proportion to the weights is found by inversion: \<open>pick r w\<close> is
  the first index whose cumulative weight exceeds \<open>r\<close>, and the last index if there is none.
\<close>

fun pick :: "npfloat \<Rightarrow> vec \<Rightarrow> nat" where
  "pick r [] = 0"
| "pick r [w] = 0"
| "pick r (w # w' # ws) = (if fl_less r w then 0 else Suc (pick (fl_sub r w) (w' # ws)))"

text \<open>
  Modelled from the spec: the condition under which \<open>sample_discrete\<close> fails, all weights
  exactly zero.
\<close>

definition all_zero :: "vec \<Rightarrow> bool" where
  "all_zero w = list_all (\<lambda>x. fl_eq x (Fin 0)) w"

text \<open>
  Modelled from the spec: \<open>sample_discrete(weights)\<close>, given a weight vector that is not
  negative and need not be normalized, returns an index drawn in proportion to the weights,
  and fails with DegenerateDistributionError if all weights are exactly zero. \<open>u\<close> is the
  uniform number it draws.
\<close>

definition sample_discrete :: "real \<Rightarrow> vec \<Rightarrow> error + nat" where
  "sample_discrete u w =
     (if all_zero w then Inl DegenerateDistributionError
      else Inr (pick (fl_mul (Fin u) (foldl fl_add (Fin 0) w)) w))"

text \<open>
  Modelled from the spec: \<open>util.stats.sample_discrete_from_log\<close> takes log-weights,
  subtracts their maximum, exponentiates and delegates to \<open>sample_discrete\<close>.
\<close>

definition sample_discrete_from_log :: "real \<Rightarrow> vec \<Rightarrow> error + nat" where
  "sample_discrete_from_log u lw =
     sample_discrete u (map (\<lambda>x. fl_exp (fl_sub x (amax lw))) lw)"

text \<open>
  Modelled from the spec: \<open>util.general.rle\<close> is imported and not part of the source. It
  returns the run-length encoding of a sequence: the values of its maximal runs and their
  lengths.
\<close>

fun rle :: "nat list \<Rightarrow> nat list \<times> nat list" where
  "rle [] = ([], [])"
| "rle (x # xs) =
     (case rle xs of
        (v # vs, d # ds) \<Rightarrow> if v = x then (v # vs, Suc d # ds) else (x # v # vs, 1 # d # ds)
      | _ \<Rightarrow> ([x], [1]))"

text \<open>\<open>seq[start:stop] = v\<close> on a list: the slice is clipped at the end.\<close>

definition slice_fill :: "'a list \<Rightarrow> nat \<Rightarrow> nat \<Rightarrow> 'a \<Rightarrow> 'a list" where
  "slice_fill xs start stop v =
     map (\<lambda>i. if start \<le> i \<and> i < stop then v else xs ! i) [0..<length xs]"

subsection \<open>HSMM forward sampling\<close>

text \<open>\<open>likelihood_block_state\<close>: \<open>np.sum(self.aBl[start:stop, state])\<close>.\<close>

definition likelihood_block_state :: "mat \<Rightarrow> nat \<Rightarrow> nat \<Rightarrow> nat \<Rightarrow> npfloat" where
  "likelihood_block_state aBl start stop state =
     foldl fl_add (Fin 0) (map (\<lambda>row. row ! state) (slice aBl start stop))"

text \<open>
  The weights from which \<open>HSMMStatesPython.sample_forwards\<close> draws the state of the segment
  that starts at \<open>idx\<close>: the pending distribution times \<open>exp(betastarl[idx] - max)\<close>, and
  \<open>exp(betastarl[idx] - max)\<close> alone if every product is zero.
\<close>

definition hsmm_state_weights :: "mat \<Rightarrow> nat \<Rightarrow> vec \<Rightarrow> vec" where
  "hsmm_state_weights betastarl idx nextstate_unsmoothed =
     (let logdomain = map (\<lambda>x. fl_sub x (amax (betastarl ! idx))) (betastarl ! idx);
          nextstate_distr = vmul (map fl_exp logdomain) nextstate_unsmoothed
      in if all_zero nextstate_distr then map fl_exp logdomain else nextstate_distr)"

text \<open>
  The table \<open>apmf\<close>: row \<open>state\<close> holds the duration pmf of that state at \<open>1, ..., T\<close>; a row
  without a duration distribution stays zero.
\<close>

definition hsmm_apmf :: "'o model \<Rightarrow> nat \<Rightarrow> mat" where
  "hsmm_apmf m T =
     map (\<lambda>i. if i < length (dur_distns m)
               then map (\<lambda>d. pmf (dur_distns m ! i) (d + 1)) [0..<T]
               else replicate T (Fin 0))
       [0..<state_dim m]"

text \<open>
  The inner \<open>while durprob > 0\<close> loop, from the current \<open>dur\<close> and \<open>durprob\<close>. It returns the
  duration and the count of random numbers used. In the overflow branch \<open>dur_distn\<close> is the
  variable left over from the loop that filled \<open>apmf\<close>: the last duration distribution of
  the model, and unbound if the model has none.
\<close>

function hsmm_sample_dur ::
  "'o model \<Rightarrow> nat \<Rightarrow> bool \<Rightarrow> mat \<Rightarrow> mat \<Rightarrow> mat \<Rightarrow> mat \<Rightarrow> rng \<Rightarrow> nat \<Rightarrow> nat \<Rightarrow> nat \<Rightarrow> npfloat
     \<Rightarrow> nat \<Rightarrow> error + nat \<times> nat" where
  "hsmm_sample_dur m T censoring aBl betal betastarl apmf u idx state dur durprob n =
     (if \<not> fl_less (Fin 0) durprob then Inr (dur, n)
      else if \<not> dur < 2 * T then Inl AssertionError
      else if dur < T \<and> \<not> state < length apmf then Inl IndexError
      else let p_d_marg = (if dur < T then apmf ! state ! dur else Fin 1)
           in if fl_isnan p_d_marg then Inl AssertionError
              else if \<not> fl_le (Fin 0) p_d_marg then Inl AssertionError
              else if fl_eq p_d_marg (Fin 0)
              then hsmm_sample_dur m T censoring aBl betal betastarl apmf u idx state (dur + 1)
                     durprob n
              else if idx + dur < T
              then let mess_term =
                         fl_exp (fl_sub (fl_add (likelihood_block_state aBl idx (idx + dur + 1) state)
                                           (betal ! (idx + dur) ! state))
                                   (betastarl ! idx ! state));
                       p_d = fl_mul mess_term p_d_marg
                   in if fl_isnan p_d then Inl AssertionError
                      else hsmm_sample_dur m T censoring aBl betal betastarl apmf u idx state
                             (dur + 1) (fl_sub durprob p_d) n
              else if censoring
              then if dur_distns m = [] then Inl UnboundLocalError
                   else (case sample_discrete (u n)
                                (map (pmf (last (dur_distns m))) [dur + 1..<3 * T]) of
                           Inl e \<Rightarrow> Inl e
                         | Inr i \<Rightarrow> Inr (dur + i, n + 1))
              else Inr (dur + 1, n))"
  by pat_completeness auto
termination
  by (relation "measure (\<lambda>(m, T, censoring, aBl, betal, betastarl, apmf, u, idx, state, dur,
        durprob, n). 2 * T - dur)") auto

declare hsmm_sample_dur.simps [simp del]

text \<open>
  The outer \<open>while idx < T\<close> loop, on \<open>(idx, nextstate_unsmoothed, stateseq, stateseq_norep,
  durations)\<close> and the count of random numbers. The assertion after the append repeats the
  one before it.
\<close>

function hsmm_sample_loop ::
  "'o model \<Rightarrow> nat \<Rightarrow> bool \<Rightarrow> mat \<Rightarrow> mat \<Rightarrow> mat \<Rightarrow> mat \<Rightarrow> rng \<Rightarrow> nat \<Rightarrow> vec \<Rightarrow> nat list
     \<Rightarrow> nat list \<Rightarrow> nat list \<Rightarrow> nat \<Rightarrow> error + nat list \<times> nat list \<times> nat list \<times> nat" where
  "hsmm_sample_loop m T censoring aBl betal betastarl apmf u idx nextstate_unsmoothed stateseq
       stateseq_norep durations n =
     (if \<not> idx < T then Inr (stateseq, stateseq_norep, durations, n)
      else case sample_discrete (u n) (hsmm_state_weights betastarl idx nextstate_unsmoothed) of
             Inl e \<Rightarrow> Inl e
           | Inr state \<Rightarrow>
               if \<not> (stateseq_norep = [] \<or> state \<noteq> last stateseq_norep) then Inl AssertionError
               else (case hsmm_sample_dur m T censoring aBl betal betastarl apmf u idx state 0
                            (Fin (u (n + 1))) (n + 2) of
                       Inl e \<Rightarrow> Inl e
                     | Inr (dur, n') \<Rightarrow>
                         if \<not> 0 < dur then Inl AssertionError
                         else hsmm_sample_loop m T censoring aBl betal betastarl apmf u (idx + dur)
                                (trans_A m ! state) (slice_fill stateseq idx (idx + dur) state)
                                (stateseq_norep @ [state]) (durations @ [dur]) n'))"
  by pat_completeness auto
termination
  by (relation "measure (\<lambda>(m, T, censoring, aBl, betal, betastarl, apmf, u, idx, pending,
        stateseq, norep, durations, n). T - idx)") auto

declare hsmm_sample_loop.simps [simp del]

text \<open>
  \<open>HSMMStatesPython.sample_forwards\<close>; the result is what the method leaves in
  \<open>self.stateseq\<close>, \<open>self.stateseq_norep\<close> and \<open>self.durations\<close>, with the count of random
  numbers. Filling \<open>apmf\<close> raises IndexError when the model has more duration distributions
  than states.
\<close>

definition hsmm_sample_forwards ::
  "'o model \<Rightarrow> nat \<Rightarrow> bool \<Rightarrow> mat \<Rightarrow> mat \<Rightarrow> mat \<Rightarrow> rng \<Rightarrow> nat
     \<Rightarrow> error + nat list \<times> nat list \<times> nat list \<times> nat" where
  "hsmm_sample_forwards m T censoring aBl betal betastarl u n =
     (if state_dim m < length (dur_distns m) then Inl IndexError
      else hsmm_sample_loop m T censoring aBl betal betastarl (hsmm_apmf m T) u 0 (pi_0 m)
             (replicate T 0) [] [] n)"

text \<open>
  \<open>HSMMStatesEigen.sample_forwards\<close> after its compiled part, which is not part of the source
  and leaves the sampled sequence in \<open>stateseq\<close>: the run-length encoding, and with censoring
  an overflow drawn from the duration distribution of the last state and added to the last
  duration.
\<close>

definition hsmm_eigen_finish ::
  "'o model \<Rightarrow> nat \<Rightarrow> bool \<Rightarrow> nat list \<Rightarrow> rng \<Rightarrow> nat
     \<Rightarrow> error + nat list \<times> nat list \<times> nat list \<times> nat" where
  "hsmm_eigen_finish m T censoring stateseq u n =
     (let stateseq_norep = fst (rle stateseq); durations = snd (rle stateseq)
      in if censoring
         then if durations = [] then Inl IndexError
              else if \<not> last stateseq_norep < length (dur_distns m) then Inl IndexError
              else (case sample_discrete (u n)
                           (map (pmf (dur_distns m ! last stateseq_norep))
                              [last durations + 1..<3 * T]) of
                      Inl e \<Rightarrow> Inl e
                    | Inr i \<Rightarrow>
                        Inr (stateseq, stateseq_norep,
                             butlast durations @ [last durations + i], n + 1))
         else Inr (stateseq, stateseq_norep, durations, n))"

subsection \<open>HMM forward sampling\<close>

text \<open>
  \<open>HMMStatesPython.sample_forwards\<close>. The weights at \<open>idx\<close>: \<open>logdomain\<close> is set to \<open>-inf\<close>
  where the pending distribution is zero, and the weights go to \<open>sample_discrete\<close> as they
  are.
\<close>

definition hmm_sample_weights :: "mat \<Rightarrow> mat \<Rightarrow> nat \<Rightarrow> vec \<Rightarrow> vec" where
  "hmm_sample_weights aBl betal idx nextstate_unsmoothed =
     (let logdomain = vadd (betal ! idx) (aBl ! idx);
          logdomain = map2 (\<lambda>p x. if fl_eq p (Fin 0) then NInf else x)
                        nextstate_unsmoothed logdomain
      in vmul nextstate_unsmoothed (map (\<lambda>x. fl_exp (fl_sub x (amax logdomain))) logdomain))"

fun hmm_sample_steps ::
  "'o model \<Rightarrow> mat \<Rightarrow> mat \<Rightarrow> rng \<Rightarrow> nat list \<Rightarrow> vec \<Rightarrow> nat list \<Rightarrow> nat \<Rightarrow> error + nat list \<times> nat"
  where
  "hmm_sample_steps m aBl betal u [] nextstate_unsmoothed stateseq n = Inr (stateseq, n)"
| "hmm_sample_steps m aBl betal u (idx # rest) nextstate_unsmoothed stateseq n =
     (case sample_discrete (u n) (hmm_sample_weights aBl betal idx nextstate_unsmoothed) of
        Inl e \<Rightarrow> Inl e
      | Inr state \<Rightarrow>
          hmm_sample_steps m aBl betal u rest (trans_A m ! state) (stateseq[idx := state]) (n + 1))"

definition hmm_sample_forwards ::
  "'o model \<Rightarrow> mat \<Rightarrow> mat \<Rightarrow> rng \<Rightarrow> nat \<Rightarrow> error + nat list \<times> nat" where
  "hmm_sample_forwards m aBl betal u n =
     hmm_sample_steps m aBl betal u [0..<length aBl] (pi_0 m) (replicate (length aBl) 0) n"

subsection \<open>Block forward sampling and resample\<close>

text \<open>\<open>block_cumulative_likelihood_state\<close>, on the table in \<open>self.aBBl\<close>.\<close>

definition block_cumulative_likelihood_state ::
  "mat \<Rightarrow> nat \<Rightarrow> nat \<Rightarrow> nat \<Rightarrow> int list \<Rightarrow> vec" where
  "block_cumulative_likelihood_state aBBl startblock stopblock state pd =
     take (length pd) (map (\<lambda>row. row ! state) (cumsum0 (slice aBBl startblock stopblock)))"

text \<open>
  The loop of \<open>HSMMStatesPossibleChangepoints.sample_forwards\<close> on \<open>(tblock,
  nextstate_unsmoothed, blockstateseq)\<close>. The state is drawn from the pending distribution
  times \<open>exp(betastarl[tblock] - max)\<close>, with no substitute when all products are zero.
\<close>

function cp_sample_loop ::
  "'o model \<Rightarrow> int list \<Rightarrow> mat \<Rightarrow> mat \<Rightarrow> nat \<Rightarrow> mat \<Rightarrow> mat \<Rightarrow> rng \<Rightarrow> nat \<Rightarrow> vec \<Rightarrow> nat list
     \<Rightarrow> nat \<Rightarrow> error + nat list \<times> nat" where
  "cp_sample_loop m lens aBBl aDl trunc betal betastarl u tblock nextstate_unsmoothed
       blockstateseq n =
     (if \<not> tblock < length betal then Inr (blockstateseq, n)
      else let logdomain = map (\<lambda>x. fl_sub x (amax (betastarl ! tblock))) (betastarl ! tblock);
               nextstate_distr = vmul (map fl_exp logdomain) nextstate_unsmoothed
           in case sample_discrete (u n) nextstate_distr of
                Inl e \<Rightarrow> Inl e
              | Inr state \<Rightarrow>
                  let pd = possible_durations lens trunc tblock;
                      truncblock = length pd
                  in if 1 < truncblock
                     then if \<not> list_all (\<lambda>d. index_ok (length aDl) (d - 1)) pd
                          then Inl IndexError
                          else let loglikelihoods =
                                     block_cumulative_likelihood_state aBBl tblock
                                       (tblock + truncblock) state pd;
                                   logpmf =
                                     map (\<lambda>x. fl_sub x (betastarl ! tblock ! state))
                                       (vadd (vadd (map (\<lambda>row. row ! state)
                                                      (rows_at aDl (map (\<lambda>d. d - 1) pd)))
                                                loglikelihoods)
                                          (map (\<lambda>row. row ! state)
                                             (slice betal tblock (tblock + truncblock))))
                               in (case sample_discrete_from_log (u (n + 1)) logpmf of
                                     Inl e \<Rightarrow> Inl e
                                   | Inr i \<Rightarrow>
                                       cp_sample_loop m lens aBBl aDl trunc betal betastarl u
                                         (tblock + (i + 1)) (trans_A m ! state)
                                         (slice_fill blockstateseq tblock (tblock + (i + 1)) state)
                                         (n + 2))
                     else cp_sample_loop m lens aBBl aDl trunc betal betastarl u (tblock + 1)
                            (trans_A m ! state)
                            (slice_fill blockstateseq tblock (tblock + 1) state) (n + 1))"
  by pat_completeness auto
termination
  by (relation "measure (\<lambda>(m, lens, aBBl, aDl, trunc, betal, betastarl, u, tblock, pending,
        blockstateseq, n). length betal - tblock)") auto

declare cp_sample_loop.simps [simp del]

text \<open>
  The whole method: \<open>self.aDl\<close> is read (AttributeError if \<open>messages_backwards\<close> has not
  assigned it) and deleted at the end; the block states are expanded over the changepoints
  and run-length encoded. The likelihoods come from \<open>self.aBBl\<close>.
\<close>

definition expand_blocks :: "nat \<Rightarrow> nat list \<Rightarrow> (nat \<times> nat) list \<Rightarrow> nat list" where
  "expand_blocks T blockstateseq changepoints =
     foldl (\<lambda>stateseq (state, (start, stop)). slice_fill stateseq start stop state)
       (replicate T 0) (zip blockstateseq changepoints)"

definition cp_sample_forwards ::
  "'o cp_self \<Rightarrow> mat \<Rightarrow> mat \<Rightarrow> rng \<Rightarrow> nat \<Rightarrow> error + 'o cp_self \<times> nat" where
  "cp_sample_forwards self betal betastarl u n =
     (case cp_aDl self of
        None \<Rightarrow> Inl AttributeError
      | Some aDl \<Rightarrow>
          if length betal \<noteq> length (cp_changepoints self) then Inl AssertionError
          else (case cp_aBBl self of
                  None \<Rightarrow> Inl AttributeError
                | Some aBBl \<Rightarrow>
                    (case cp_sample_loop (cp_model self) (blocklens self) aBBl aDl
                            (case cp_trunc self of None \<Rightarrow> cp_T self | Some v \<Rightarrow> v)
                            betal betastarl u 0 (pi_0 (cp_model self))
                            (replicate (length betal) 0) n of
                       Inl e \<Rightarrow> Inl e
                     | Inr (blockstateseq, n') \<Rightarrow>
                         let stateseq = expand_blocks (cp_T self) blockstateseq
                                          (cp_changepoints self)
                         in Inr (self\<lparr>cp_stateseq := stateseq,
                                       cp_stateseq_norep := fst (rle stateseq),
                                       cp_durations := snd (rle stateseq),
                                       cp_aDl := None\<rparr>, n'))))"

text \<open>
  \<open>HSMMStatesPython.resample\<close> as \<open>HSMMStatesPossibleChangepoints\<close> inherits it: the value
  of \<open>self.get_aBl(data)\<close> is stored in \<open>self.aBl\<close>, the duration tables are filled for the
  durations \<open>1, ..., T\<close>, and the overridden \<open>messages_backwards\<close> and \<open>sample_forwards\<close> run.
\<close>

definition cp_resample :: "'o cp_self \<Rightarrow> rng \<Rightarrow> nat \<Rightarrow> error + 'o cp_self \<times> nat" where
  "cp_resample self u n =
     (case cp_data self of
        None \<Rightarrow> Inl AssertionError
      | Some data \<Rightarrow>
          let Al = np_log (trans_A (cp_model self));
              T = cp_T self;
              trunc = (case cp_trunc self of None \<Rightarrow> T | Some v \<Rightarrow> v);
              self = self\<lparr>cp_trunc := Some trunc\<rparr>;
              r = cp_get_aBl self data;
              self = (fst r)\<lparr>cp_aBl := snd r\<rparr>;
              aDl = duration_table log_pmf (cp_model self) T;
              aDsl = duration_table log_sf (cp_model self) T
          in (case cp_messages_backwards self Al aDl aDsl (Some trunc) of
                Inl e \<Rightarrow> Inl e
              | Inr (self, betal, betastarl) \<Rightarrow> cp_sample_forwards self betal betastarl u n))"

section \<open>Properties of the arrays\<close>

lemma py_index_nonneg [simp]: "py_index n (int i) = i"
  by (simp add: py_index_def)

lemma py_index_minus_one [simp]: "py_index n (- 1) = n - 1"
  by (simp add: py_index_def)

lemma py_index_pred: "py_index n (int t - 1) = (if t = 0 then n - 1 else t - 1)"
  by (auto simp: py_index_def)

lemma length_set_row [simp]: "length (set_row m i v) = length m"
  by (simp add: set_row_def)

lemma length_zeros [simp]: "length (zeros K) = K"
  by (simp add: zeros_def)

lemma nth_zeros [simp]: "k < K \<Longrightarrow> zeros K ! k = Fin 0"
  by (simp add: zeros_def)

lemma length_zeros2 [simp]: "length (zeros2 T K) = T"
  by (simp add: zeros2_def)

lemma nth_zeros2 [simp]: "t < T \<Longrightarrow> zeros2 T K ! t = zeros K"
  by (simp add: zeros2_def)

lemma hmm_backwards_fold_nth:
  "i \<notin> set ts \<Longrightarrow> foldl (hmm_backwards_step Al aBl) b ts ! i = b ! i"
  by (induction ts arbitrary: b) (auto simp: hmm_backwards_step_def)

lemma hmm_backwards_fold_length [simp]:
  "length (foldl (hmm_backwards_step Al aBl) b ts) = length b"
  by (induction ts arbitrary: b) (auto simp: hmm_backwards_step_def)

lemma hsmm_backwards_fold_length:
  "length (fst (foldl (hsmm_backwards_step c aBl Al aDl aDsl trunc T) s ts)) = length (fst s)
   \<and> length (snd (foldl (hsmm_backwards_step c aBl Al aDl aDsl trunc T) s ts)) = length (snd s)"
  by (induction ts arbitrary: s) (auto simp: hsmm_backwards_step_def Let_def)

lemma hsmm_backwards_loop_length [simp]:
  "length (fst (hsmm_backwards_loop c aBl Al aDl aDsl trunc T)) = T"
  "length (snd (hsmm_backwards_loop c aBl Al aDl aDsl trunc T)) = T"
  by (simp_all add: hsmm_backwards_loop_def hsmm_backwards_fold_length)

section \<open>The boundary row of the backward messages\<close>

text \<open>
  C5. After \<open>HMMStatesPython.messages_backwards\<close> the last row of \<open>betal\<close> is zero in
  every column, for every likelihood table with at least one row. After
  \<open>HSMMStatesPython.messages_backwards\<close>, for every input with \<open>T \<ge> 1\<close> and a positive
  truncation, the method returns, the returned \<open>betal\<close> is the loop's \<open>betal\<close> with its
  last row alone overwritten (the one assignment after the loop), and that row is zero.
\<close>

theorem betal_last_row_zero:
  "(aBl \<noteq> [] \<longrightarrow>
      hmm_messages_backwards m aBl ! (length aBl - 1) = zeros (length (aBl ! (length aBl - 1))))
   \<and> (aDl \<noteq> [] \<and> trunc \<noteq> Some 0 \<longrightarrow>
      (\<exists>betal betastarl.
         hsmm_messages_backwards censoring aBl' Al aDl aDsl trunc = Inr (betal, betastarl)
         \<and> betal = (fst (hsmm_backwards_loop censoring aBl' Al aDl aDsl
                (case trunc of None \<Rightarrow> length aDl | Some n \<Rightarrow> n) (length aDl)))
                  [length aDl - 1 := zeros (length Al)]
         \<and> length betal = length aDl
         \<and> betal ! (length aDl - 1) = zeros (length Al)
         \<and> (\<forall>k < length Al. betal ! (length aDl - 1) ! k = Fin 0)))"
proof (intro conjI impI)
  assume ne: "aBl \<noteq> []"
  have "length aBl - 1 \<notin> set (rev [0..<length aBl - 1])" by simp
  then have "hmm_messages_backwards m aBl ! (length aBl - 1)
      = map (\<lambda>row. zeros (length row)) aBl ! (length aBl - 1)"
    unfolding hmm_messages_backwards_def Let_def by (rule hmm_backwards_fold_nth)
  also have "\<dots> = zeros (length (aBl ! (length aBl - 1)))"
    using ne by simp
  finally show "hmm_messages_backwards m aBl ! (length aBl - 1)
      = zeros (length (aBl ! (length aBl - 1)))" .
next
  assume a: "aDl \<noteq> [] \<and> trunc \<noteq> Some 0"
  then have T: "0 < length aDl" by simp
  from a have tr: "(case trunc of None \<Rightarrow> length aDl | Some n \<Rightarrow> n) \<noteq> 0"
    by (cases trunc) auto
  show "\<exists>betal betastarl.
         hsmm_messages_backwards censoring aBl' Al aDl aDsl trunc = Inr (betal, betastarl)
         \<and> betal = (fst (hsmm_backwards_loop censoring aBl' Al aDl aDsl
                (case trunc of None \<Rightarrow> length aDl | Some n \<Rightarrow> n) (length aDl)))
                  [length aDl - 1 := zeros (length Al)]
         \<and> length betal = length aDl
         \<and> betal ! (length aDl - 1) = zeros (length Al)
         \<and> (\<forall>k < length Al. betal ! (length aDl - 1) ! k = Fin 0)"
    using T tr by (simp add: hsmm_messages_backwards_def Let_def set_row_def)
qed

theorem betal_last_row_zero_witness:
  "hmm_messages_backwards
      \<lparr>state_dim = 2, pi_0 = [Fin 1, Fin 0], trans_A = [[Fin 0, Fin 1], [Fin 1, Fin 0]],
        obs_distns = ([] :: (nat list \<Rightarrow> vec) list), dur_distns = []\<rparr>
      [[Fin 0, Fin (- 1)], [Fin (- 2), Fin 0]] ! 1 = [Fin 0, Fin 0]
   \<and> (\<exists>betal betastarl.
         hsmm_messages_backwards True [[Fin 0, Fin (- 1)], [Fin (- 2), Fin 0]]
           [[NInf, Fin 0], [Fin 0, NInf]] [[Fin (- 1), Fin (- 1)], [Fin (- 2), Fin (- 2)]]
           [[Fin (- 1), Fin (- 1)], [Fin (- 2), Fin (- 2)]] None = Inr (betal, betastarl)
         \<and> length betal = 2 \<and> betal ! 1 = [Fin 0, Fin 0])"
  using betal_last_row_zero [of "[[Fin 0, Fin (- 1)], [Fin (- 2), Fin 0]]"
      "\<lparr>state_dim = 2, pi_0 = [Fin 1, Fin 0], trans_A = [[Fin 0, Fin 1], [Fin 1, Fin 0]],
        obs_distns = ([] :: (nat list \<Rightarrow> vec) list), dur_distns = []\<rparr>"
      "[[Fin (- 1), Fin (- 1)], [Fin (- 2), Fin (- 2)]]" None True
      "[[Fin 0, Fin (- 1)], [Fin (- 2), Fin 0]]" "[[NInf, Fin 0], [Fin 0, NInf]]"
      "[[Fin (- 1), Fin (- 1)], [Fin (- 2), Fin (- 2)]]"]
  by (auto simp: zeros_def numeral_2_eq_2)

lemma nth_vadd: "k < length u \<Longrightarrow> k < length v \<Longrightarrow> vadd u v ! k = fl_add (u ! k) (v ! k)"
  by (simp add: vadd_def)

lemma length_vadd [simp]: "length (vadd u v) = min (length u) (length v)"
  by (simp add: vadd_def)

lemma nth_vlogaddexp:
  "k < length u \<Longrightarrow> k < length v \<Longrightarrow> vlogaddexp u v ! k = logaddexp (u ! k) (v ! k)"
  by (simp add: vlogaddexp_def)

lemma length_vlogaddexp [simp]: "length (vlogaddexp u v) = min (length u) (length v)"
  by (simp add: vlogaddexp_def)

lemma length_madd [simp]: "length (madd X Y) = min (length X) (length Y)"
  by (simp add: madd_def)

lemma nth_madd: "i < length X \<Longrightarrow> i < length Y \<Longrightarrow> madd X Y ! i = vadd (X ! i) (Y ! i)"
  by (simp add: madd_def)

lemma foldl_vlogaddexp_length:
  "\<forall>r \<in> set rs. length r = length r0 \<Longrightarrow> length (foldl vlogaddexp r0 rs) = length r0"
  by (induction rs arbitrary: r0) auto

lemma foldl_vlogaddexp_nth:
  "\<forall>r \<in> set rs. length r = length r0 \<Longrightarrow> k < length r0 \<Longrightarrow>
   foldl vlogaddexp r0 rs ! k = foldl logaddexp (r0 ! k) (map (\<lambda>r. r ! k) rs)"
proof (induction rs arbitrary: r0)
  case Nil
  then show ?case by simp
next
  case (Cons r rs)
  have "foldl vlogaddexp (vlogaddexp r0 r) rs ! k
      = foldl logaddexp (vlogaddexp r0 r ! k) (map (\<lambda>r. r ! k) rs)"
    using Cons.prems by (intro Cons.IH) auto
  then show ?case using Cons.prems by (simp add: nth_vlogaddexp)
qed

lemma logaddexp_reduce0_nth:
  "X \<noteq> [] \<Longrightarrow> \<forall>r \<in> set X. length r = K \<Longrightarrow> k < K \<Longrightarrow>
   logaddexp_reduce0 X ! k = logaddexp_reduce (map (\<lambda>r. r ! k) X)"
  by (cases X) (auto simp: foldl_vlogaddexp_nth)

lemma logaddexp_reduce0_length:
  "X \<noteq> [] \<Longrightarrow> \<forall>r \<in> set X. length r = K \<Longrightarrow> length (logaddexp_reduce0 X) = K"
  by (cases X) (auto simp: foldl_vlogaddexp_length)

lemma length_cumsum_from [simp]: "length (cumsum_from acc X) = length X"
  by (induction X arbitrary: acc) auto

lemma length_cumsum0 [simp]: "length (cumsum0 X) = length X"
  by (cases X) auto

lemma cumsum_from_nth:
  "i < length X \<Longrightarrow> \<forall>r \<in> set X. length r = length acc \<Longrightarrow> k < length acc \<Longrightarrow>
   length (cumsum_from acc X ! i) = length acc \<and>
   cumsum_from acc X ! i ! k = foldl fl_add (acc ! k) (map (\<lambda>r. r ! k) (take (Suc i) X))"
proof (induction X arbitrary: acc i)
  case Nil
  then show ?case by simp
next
  case (Cons r X)
  show ?case
  proof (cases i)
    case 0
    then show ?thesis using Cons.prems by (simp add: nth_vadd)
  next
    case (Suc j)
    have "length (cumsum_from (vadd acc r) X ! j) = length (vadd acc r) \<and>
      cumsum_from (vadd acc r) X ! j ! k
        = foldl fl_add (vadd acc r ! k) (map (\<lambda>r. r ! k) (take (Suc j) X))"
      using Cons.prems Suc by (intro Cons.IH) auto
    then show ?thesis using Cons.prems Suc by (simp add: nth_vadd)
  qed
qed

lemma cumsum0_nth:
  assumes "i < length X" "\<forall>r \<in> set X. length r = K" "k < K"
  shows "length (cumsum0 X ! i) = K \<and>
   cumsum0 X ! i ! k = fl_sum (map (\<lambda>r. r ! k) (take (Suc i) X))"
proof (cases X)
  case Nil
  then show ?thesis using assms by simp
next
  case (Cons r rs)
  show ?thesis
  proof (cases i)
    case 0
    then show ?thesis using assms Cons by simp
  next
    case (Suc j)
    then show ?thesis using assms Cons cumsum_from_nth [of j rs r k] by simp
  qed
qed


lemma shape_nth: "shape T K X \<Longrightarrow> t < T \<Longrightarrow> length (X ! t) = K"
  by (simp add: shape_def list_all_length)

lemma shape_length: "shape T K X \<Longrightarrow> length X = T"
  by (simp add: shape_def)

lemma shapeI: "length X = T \<Longrightarrow> (\<And>t. t < T \<Longrightarrow> length (X ! t) = K) \<Longrightarrow> shape T K X"
  by (simp add: shape_def list_all_length)

lemma take_drop_map_nth:
  "t + n \<le> length xs \<Longrightarrow> map f (take n (drop t xs)) = map (\<lambda>s. f (xs ! s)) [t..<t + n]"
  by (rule nth_equalityI) (auto simp: nth_map_upt)

lemma map_rows_nth:
  "length M = m \<Longrightarrow> (\<And>d. d < m \<Longrightarrow> M ! d ! k = f d) \<Longrightarrow> map (\<lambda>r. r ! k) M = map f [0..<m]"
  by (rule nth_equalityI) auto

lemma hsmm_terms_shape:
  assumes "shape T K betal" "shape T K aBl" "shape T K aDl" "t < T" "k < K"
  shows "length (hsmm_terms betal aBl aDl trunc T t) = min trunc (T - t)"
    and "d < min trunc (T - t) \<Longrightarrow> length (hsmm_terms betal aBl aDl trunc T t ! d) = K"
    and "d < min trunc (T - t) \<Longrightarrow> hsmm_terms betal aBl aDl trunc T t ! d ! k =
           fl_add (fl_add (betal ! (t + d) ! k) (fl_sum (map (\<lambda>s. aBl ! s ! k) [t..<t + d + 1])))
             (aDl ! d ! k)"
proof -
  let ?m = "min trunc (T - t)"
  let ?X = "slice betal t (t + trunc)"
  let ?S = "slice aBl t (t + trunc)"
  let ?C = "cumulative_likelihoods aBl t (t + trunc)"
  let ?D = "take ?m aDl"
  have lb: "length betal = T" and la: "length aBl = T" and ld: "length aDl = T"
    using assms by (simp_all add: shape_length)
  have lX: "length ?X = ?m" and lS: "length ?S = ?m" and lD: "length ?D = ?m"
    using lb la ld assms(4) by (auto simp: slice_def)
  have lC: "length ?C = ?m"
    using lS by (simp add: cumulative_likelihoods_def)
  show "length (hsmm_terms betal aBl aDl trunc T t) = ?m"
    using lX lC lD by (simp add: hsmm_terms_def)
  assume d: "d < ?m"
  have td: "t + d < T" using d by linarith
  have Xd: "?X ! d = betal ! (t + d)"
    using d lb assms(4) by (simp add: slice_def)
  have Dd: "?D ! d = aDl ! d"
    using d by simp
  have rows: "\<forall>r \<in> set ?S. length r = K"
  proof
    fix r assume "r \<in> set ?S"
    then have "r \<in> set aBl" unfolding slice_def by (meson in_set_dropD in_set_takeD)
    then show "length r = K" using assms(2) by (simp add: shape_def list_all_iff)
  qed
  have Cd: "length (?C ! d) = K \<and> ?C ! d ! k = fl_sum (map (\<lambda>r. r ! k) (take (Suc d) ?S))"
    unfolding cumulative_likelihoods_def
    using d lS rows assms(5) by (intro cumsum0_nth) auto
  have "take (Suc d) ?S = take (Suc d) (drop t aBl)"
    using d by (auto simp: slice_def min_def split: if_splits)
  then have "map (\<lambda>r. r ! k) (take (Suc d) ?S) = map (\<lambda>s. aBl ! s ! k) [t..<t + Suc d]"
    using td la by (simp add: take_drop_map_nth)
  then have Cdk: "?C ! d ! k = fl_sum (map (\<lambda>s. aBl ! s ! k) [t..<t + d + 1])"
    using Cd by simp
  have lbd: "length (betal ! (t + d)) = K" using assms(1) td by (rule shape_nth)
  have ldd: "length (aDl ! d) = K" using assms(3) d by (intro shape_nth) auto
  have row: "hsmm_terms betal aBl aDl trunc T t ! d = vadd (vadd (betal ! (t + d)) (?C ! d)) (aDl ! d)"
    using d lX lC lD Xd Dd by (simp add: hsmm_terms_def nth_madd)
  show "length (hsmm_terms betal aBl aDl trunc T t ! d) = K"
    using row lbd ldd Cd by simp
  show "hsmm_terms betal aBl aDl trunc T t ! d ! k =
           fl_add (fl_add (betal ! (t + d) ! k) (fl_sum (map (\<lambda>s. aBl ! s ! k) [t..<t + d + 1])))
             (aDl ! d ! k)"
    using row lbd ldd Cd Cdk assms(5) by (simp add: nth_vadd)
qed

lemma ncols_shape: "shape T K X \<Longrightarrow> 0 < T \<Longrightarrow> ncols X = K"
  by (cases X) (auto simp: ncols_def shape_def)

lemma shape_set: "shape T K X \<Longrightarrow> r \<in> set X \<Longrightarrow> length r = K"
  by (simp add: shape_def list_all_iff)




text \<open>A backward loop that writes row \<open>t\<close> of the second array from the rows \<open>t..\<close> of the
  first, then row \<open>t - 1\<close> of the first.\<close>

lemma backwards_fold_inv:
  fixes R :: "mat \<Rightarrow> nat \<Rightarrow> vec" and f :: "vec \<Rightarrow> vec"
  assumes dep: "\<And>bl bl' t. drop t bl = drop t bl' \<Longrightarrow> R bl t = R bl' t"
  shows "n \<le> T \<Longrightarrow> length bl = T \<Longrightarrow> length bs = T \<Longrightarrow> (0 < n \<Longrightarrow> bl ! (T - 1) = Z) \<Longrightarrow>
    (\<And>t. n \<le> t \<Longrightarrow> t < T \<Longrightarrow> bs ! t = R (bl[T - 1 := Z]) t) \<Longrightarrow>
    (\<And>t. n \<le> t \<Longrightarrow> t < T \<Longrightarrow> 0 < t \<Longrightarrow> bl ! (t - 1) = f (bs ! t)) \<Longrightarrow>
    s' = foldl (\<lambda>s t. (set_row (fst s) (int t - 1) (f (R (fst s) t)), (snd s)[t := R (fst s) t]))
           (bl, bs) (rev [0..<n]) \<Longrightarrow>
    (\<forall>t < T. snd s' ! t = R ((fst s')[T - 1 := Z]) t)
    \<and> (\<forall>t < T. 0 < t \<longrightarrow> (fst s')[T - 1 := Z] ! (t - 1) = f (snd s' ! t))"
proof (induction n arbitrary: bl bs)
  case 0
  then show ?case by auto
next
  case (Suc n)
  let ?row = "R bl n"
  let ?bl1 = "set_row bl (int n - 1) (f ?row)"
  let ?bs1 = "bs[n := ?row]"
  have nT: "n < T" using Suc.prems(1) by simp
  have Z: "bl ! (T - 1) = Z" using Suc.prems(4) by simp
  then have blZ: "bl[T - 1 := Z] = bl" by (metis list_update_id)
  have bl1: "?bl1 = bl[(if n = 0 then T - 1 else n - 1) := f ?row]"
    using Suc.prems(2) by (simp add: set_row_def py_index_pred)
  have bl1Z: "drop n (?bl1[T - 1 := Z]) = drop n bl"
  proof (cases "n = 0")
    case True
    then show ?thesis using bl1 blZ by simp
  next
    case False
    then have "?bl1[T - 1 := Z] = (bl[T - 1 := Z])[n - 1 := f ?row]"
      using bl1 nT by (simp add: list_update_swap)
    then show ?thesis using False blZ by simp
  qed
  have s': "s' = foldl (\<lambda>s t. (set_row (fst s) (int t - 1) (f (R (fst s) t)), (snd s)[t := R (fst s) t]))
           (?bl1, ?bs1) (rev [0..<n])"
    using Suc.prems(7) by simp
  show ?case
  proof (rule Suc.IH [OF _ _ _ _ _ _ s'])
    show "n \<le> T" using nT by simp
    show "length ?bl1 = T" using Suc.prems(2) by simp
    show "length ?bs1 = T" using Suc.prems(3) by simp
    show "?bl1 ! (T - 1) = Z" if "0 < n"
      using that bl1 nT Z by simp
    show "?bs1 ! t = R (?bl1[T - 1 := Z]) t" if "n \<le> t" "t < T" for t
    proof -
      have "drop t (?bl1[T - 1 := Z]) = drop t bl"
        using bl1Z that(1) by (metis drop_drop le_add_diff_inverse2)
      then have eq: "R (?bl1[T - 1 := Z]) t = R bl t" by (rule dep)
      show ?thesis
      proof (cases "t = n")
        case True
        then show ?thesis using eq Suc.prems(3) nT by simp
      next
        case False
        then have "Suc n \<le> t" using that(1) by simp
        then have "bs ! t = R (bl[T - 1 := Z]) t" using that(2) by (rule Suc.prems(5))
        then show ?thesis using eq False blZ by simp
      qed
    qed
    show "?bl1 ! (t - 1) = f (?bs1 ! t)" if "n \<le> t" "t < T" "0 < t" for t
    proof (cases "t = n")
      case True
      then show ?thesis using bl1 that Suc.prems(2,3) by simp
    next
      case False
      then have Sn: "Suc n \<le> t" using that(1) by simp
      then have "bl ! (t - 1) = f (bs ! t)" using that(2,3) by (rule Suc.prems(6))
      moreover have "?bl1 ! (t - 1) = bl ! (t - 1)"
        using bl1 Sn that(2) by (cases "n = 0") auto
      ultimately show ?thesis using False by simp
    qed
  qed
qed


lemma shape_zeros2 [simp]: "shape T K (zeros2 T K)"
  by (simp add: shape_def zeros2_def list_all_length)

lemma shape_update: "shape T K X \<Longrightarrow> length v = K \<Longrightarrow> shape T K (X[i := v])"
  by (cases "i < length X") (auto simp: shape_def list_all_length nth_list_update)

lemma length_logaddexp_reduce1 [simp]: "length (logaddexp_reduce1 X) = length X"
  by (simp add: logaddexp_reduce1_def)




section \<open>The geometric-tail engine\<close>

lemma geo_betastarl_row_exact:
  "T \<le> trunc \<Longrightarrow>
   geo_betastarl_row hb c aBl aDl aDsl trunc T bl t = hsmm_betastarl_row c aBl aDl aDsl trunc T bl t"
  by (simp add: geo_betastarl_row_def hsmm_betastarl_row_def Let_def)

lemma geo_backwards_loop_exact:
  "T \<le> trunc \<Longrightarrow>
   geo_backwards_loop hb c aBl Al aDl aDsl trunc T = hsmm_backwards_loop c aBl Al aDl aDsl trunc T"
proof -
  assume "T \<le> trunc"
  then have "geo_backwards_step hb c aBl Al aDl aDsl trunc T
      = hsmm_backwards_step c aBl Al aDl aDsl trunc T"
    by (intro ext) (simp add: geo_backwards_step_def hsmm_backwards_step_def geo_betastarl_row_exact)
  then show ?thesis
    by (simp add: geo_backwards_loop_def hsmm_backwards_loop_def)
qed

lemmas geo_eval_defs =
  geo_messages_backwards_def geo_init_def hsmm_messages_backwards_def Let_def
  hsmm_backwards_loop_def hsmm_backwards_step_def hsmm_betastarl_row_def slice_def
  cumulative_likelihoods_def likelihood_block_def madd_def vadd_def vlogaddexp_def set_row_def
  py_index_def zeros2_def zeros_def logaddexp_reduce1_def sum0_def ncols_def
  hmm_get_aBl_def duration_table_def np_log_def ex_model_def ex_dur_def ex_obs0_def ex_obs1_def
  numeral_2_eq_2 upt_rec

lemma exp_twice_ln_half: "exp (2 * ln (1 / 2)) = (1 / 4 :: real)"
proof -
  have "exp (2 * ln (1 / 2)) = exp (ln (1 / 2)) * exp (ln (1 / 2 :: real))"
    by (simp only: mult_2 exp_add)
  then show ?thesis by simp
qed

text \<open>
  C8. The claim: for \<open>trunc = T\<close> the backward messages of the geometric-tail engine are
  exactly those of the exact engine on the same inputs. On an instance as the constructors
  leave it, with the tables that \<open>resample\<close> builds for the observations \<open>[0, 1]\<close> and
  \<open>trunc = T = 2\<close>, \<open>HSMMStatesGeoApproximation.messages_backwards\<close> raises AttributeError:
  it reads \<open>self.state_dim\<close>, which no statement assigns. \<open>HSMMStatesPython.messages_backwards\<close>
  returns its messages on the same inputs. The loops of the two methods agree whenever
  \<open>T \<le> trunc\<close> (lemma \<open>geo_backwards_loop_exact\<close>); the method fails before it reaches its
  loop.
\<close>

theorem geo_trunc_T_attribute_error:
  "geo_messages_backwards (geo_init ex_model True (hmm_get_aBl ex_model [0, 1]))
      (np_log (trans_A ex_model)) (duration_table log_pmf ex_model 2)
      (duration_table log_sf ex_model 2) (Some 2) = Inl AttributeError
   \<and> hsmm_messages_backwards True (hmm_get_aBl ex_model [0, 1])
      (np_log (trans_A ex_model)) (duration_table log_pmf ex_model 2)
      (duration_table log_sf ex_model 2) (Some 2)
     = Inr ([[Fin (ln (1 / 2)), NInf], [Fin 0, Fin 0]],
            [[Fin (2 * ln (1 / 2)), Fin (2 * ln (1 / 2) + ln (1 / 4))],
             [NInf, Fin (ln (1 / 2))]])"
  by (simp add: geo_eval_defs exp_twice_ln_half)

text \<open>
  C7. The claim: the backward pass of the geometric-tail engine builds the auxiliary
  matrix, runs the HMM backward recursion on that auxiliary chain and log-adds the
  geometric-tail term into \<open>betastarl[t]\<close> when \<open>t + trunc < T\<close>. On an instance as the
  constructors leave it the method returns no messages: for every \<open>trunc > 1\<close> it raises
  AttributeError at its first use of \<open>self.state_dim\<close>, on any tables, and so on the tables
  that \<open>resample\<close> builds for the observations \<open>[0, 1, 0, 1]\<close> with \<open>trunc = 2\<close>, where the
  term is due at \<open>t = 0\<close> and \<open>t = 1\<close>. The matrix that the statements after it build for
  the example model and \<open>trunc = 2\<close> has \<open>pmf(3)/pmf(2) = 1\<close> on its diagonal, where the
  ratio of the survival functions \<open>sf(3)/sf(2)\<close> is \<open>0\<close>.
\<close>

theorem geo_tail_attribute_error:
  "geo_messages_backwards (geo_init m censoring aBl) Al aDl aDsl (Some (Suc (Suc n)))
     = Inl AttributeError
   \<and> geo_messages_backwards (geo_init ex_model True (hmm_get_aBl ex_model [0, 1, 0, 1]))
      (np_log (trans_A ex_model)) (duration_table log_pmf ex_model 4)
      (duration_table log_sf ex_model 4) (Some 2) = Inl AttributeError
   \<and> geo_hmm_A 2 (trans_A ex_model) (geo_thediag (dur_distns ex_model) 2)
     = Inr [[Fin 1, Fin 0], [Fin 0, Fin 1]]
   \<and> fl_exp (fl_sub (log_sf ex_dur (2 + 1)) (log_sf ex_dur 2)) = Fin 0"
  by (simp add: geo_messages_backwards_def geo_init_def geo_hmm_A_def geo_thediag_def
      flat_stride_set_def broadcast2_def scale_rows_def sum1_def ncols_def fl_sub_def
      ex_model_def ex_dur_def Let_def numeral_2_eq_2 upt_rec)

section \<open>The forward messages and the marginal likelihood\<close>

lemma np_T_nth:
  "k < ncols X \<Longrightarrow> np_T X ! k = map (\<lambda>row. row ! k) X"
  by (simp add: np_T_def)

lemma length_np_T [simp]: "length (np_T X) = ncols X"
  by (simp add: np_T_def)

lemma shape_np_log [simp]: "shape T K (np_log X) = shape T K X"
  by (simp add: shape_def np_log_def list_all_length)

lemma nth_np_log: "i < length X \<Longrightarrow> j < length (X ! i) \<Longrightarrow> np_log X ! i ! j = fl_log (X ! i ! j)"
  by (simp add: np_log_def)

lemma ncols_square: "shape K K X \<Longrightarrow> ncols X = K"
  by (cases X) (auto simp: ncols_def shape_def)

lemma hmm_forwards_row_length:
  "shape K K Al \<Longrightarrow> length b = K \<Longrightarrow>
   length (vadd (logaddexp_reduce1 (map (\<lambda>col. vadd row col) (np_T Al))) b) = K"
  by (simp add: ncols_square)

text \<open>One row of the forward recursion, entry by entry.\<close>

lemma hmm_forwards_row_nth:
  assumes "shape K K Al" "length row = K" "length b = K" "k < K"
  shows "length (vadd (logaddexp_reduce1 (map (\<lambda>col. vadd row col) (np_T Al))) b) = K"
    and "vadd (logaddexp_reduce1 (map (\<lambda>col. vadd row col) (np_T Al))) b ! k
         = fl_add (logaddexp_reduce (map (\<lambda>j. fl_add (row ! j) (Al ! j ! k)) [0..<K])) (b ! k)"
proof -
  have nc: "ncols Al = K" using assms(1,4) by (intro ncols_shape) auto
  have lA: "length Al = K" using assms(1) by (rule shape_length)
  show "length (vadd (logaddexp_reduce1 (map (\<lambda>col. vadd row col) (np_T Al))) b) = K"
    using nc assms(3) by simp
  have "vadd row (np_T Al ! k) = map (\<lambda>j. fl_add (row ! j) (Al ! j ! k)) [0..<K]"
    using nc lA assms(2,4)
    by (intro nth_equalityI) (auto simp: np_T_nth nth_vadd)
  then show "vadd (logaddexp_reduce1 (map (\<lambda>col. vadd row col) (np_T Al))) b ! k
         = fl_add (logaddexp_reduce (map (\<lambda>j. fl_add (row ! j) (Al ! j ! k)) [0..<K])) (b ! k)"
    using nc assms(3,4) by (simp add: nth_vadd logaddexp_reduce1_def)
qed

lemma hmm_forwards_fold:
  assumes "shape K K Al" "shape T K aBl" "shape T K a0" "n < T"
  defines "res \<equiv> foldl (hmm_forwards_step Al aBl) a0 [0..<n]"
  shows "shape T K res \<and> res ! 0 = a0 ! 0
    \<and> (\<forall>t < n. res ! (t + 1)
          = vadd (logaddexp_reduce1 (map (\<lambda>col. vadd (res ! t) col) (np_T Al))) (aBl ! (t + 1)))
    \<and> (\<forall>t. n < t \<longrightarrow> res ! t = a0 ! t)"
  using assms(4) unfolding res_def
proof (induction n)
  case 0
  then show ?case using assms(3) by simp
next
  case (Suc n)
  let ?r = "foldl (hmm_forwards_step Al aBl) a0 [0..<n]"
  let ?new = "vadd (logaddexp_reduce1 (map (\<lambda>col. vadd (?r ! n) col) (np_T Al))) (aBl ! (n + 1))"
  have IH: "shape T K ?r" "?r ! 0 = a0 ! 0"
    "\<forall>t < n. ?r ! (t + 1)
          = vadd (logaddexp_reduce1 (map (\<lambda>col. vadd (?r ! t) col) (np_T Al))) (aBl ! (t + 1))"
    "\<forall>t. n < t \<longrightarrow> ?r ! t = a0 ! t"
    using Suc by simp_all
  have step: "foldl (hmm_forwards_step Al aBl) a0 [0..<Suc n] = ?r[n + 1 := ?new]"
    by (simp add: hmm_forwards_step_def)
  have ln: "length ?new = K"
    using assms(1) shape_nth [OF assms(2), of "n + 1"] Suc.prems
    by (intro hmm_forwards_row_length) auto
  have lr: "length ?r = T" using IH(1) by (rule shape_length)
  show ?case
    unfolding step
  proof (intro conjI allI impI)
    show "shape T K (?r[n + 1 := ?new])" using IH(1) ln by (rule shape_update)
    show "?r[n + 1 := ?new] ! 0 = a0 ! 0" using IH(2) by simp
    show "?r[n + 1 := ?new] ! (t + 1)
        = vadd (logaddexp_reduce1 (map (\<lambda>col. vadd (?r[n + 1 := ?new] ! t) col) (np_T Al)))
            (aBl ! (t + 1))" if "t < Suc n" for t
    proof (cases "t = n")
      case True
      then show ?thesis using lr Suc.prems by simp
    next
      case False
      then have "t < n" using that by simp
      then show ?thesis using IH(3) by simp
    qed
    show "?r[n + 1 := ?new] ! t = a0 ! t" if "Suc n < t" for t
      using that IH(4) by simp
  qed
qed

lemma logval_cases: "logval x \<Longrightarrow> (x = NInf \<Longrightarrow> P) \<Longrightarrow> (\<And>a. x = Fin a \<Longrightarrow> P) \<Longrightarrow> P"
  by (cases x) (auto simp: logval_def)

lemma logval_simps [simp]: "logval NInf" "logval (Fin a)" "\<not> logval NaN" "\<not> logval PInf"
  by (simp_all add: logval_def)

lemma lin_simps [simp]: "lin NInf = 0" "lin (Fin a) = exp a"
  by (simp_all add: lin_def)

lemma logval_fl_add:
  assumes "logval x" "logval y"
  shows "logval (fl_add x y)" and "lin (fl_add x y) = lin x * lin y"
  using assms by (auto elim!: logval_cases simp: exp_add)

lemma logval_logaddexp:
  assumes "logval x" "logval y"
  shows "logval (logaddexp x y)" and "lin (logaddexp x y) = lin x + lin y"
proof -
  have pos: "0 < exp a + exp b" for a b :: real by (simp add: add_pos_pos)
  show "logval (logaddexp x y)" using assms by (auto elim!: logval_cases)
  show "lin (logaddexp x y) = lin x + lin y"
    using assms pos by (auto elim!: logval_cases)
qed

lemma lin_inj: "logval x \<Longrightarrow> logval y \<Longrightarrow> lin x = lin y \<Longrightarrow> x = y"
  by (auto elim!: logval_cases)

lemma logval_fl_log:
  assumes "prob x"
  shows "logval (fl_log x)" and "0 \<le> lin (fl_log x)"
  using assms by (cases x; auto simp: prob_def)+

lemma foldl_logaddexp_lin:
  "logval a \<Longrightarrow> list_all logval xs \<Longrightarrow>
   logval (foldl logaddexp a xs) \<and> lin (foldl logaddexp a xs) = lin a + sum_list (map lin xs)"
proof (induction xs arbitrary: a)
  case Nil
  then show ?case by simp
next
  case (Cons x xs)
  have "logval (logaddexp a x)" "lin (logaddexp a x) = lin a + lin x"
    using Cons.prems by (simp_all add: logval_logaddexp)
  then show ?case using Cons.IH [of "logaddexp a x"] Cons.prems by simp
qed

lemma logaddexp_reduce_lin:
  assumes "list_all logval xs"
  shows "logval (logaddexp_reduce xs)" and "lin (logaddexp_reduce xs) = sum_list (map lin xs)"
  using assms foldl_logaddexp_lin by (cases xs; simp)+

lemma path_step_fold:
  "foldl (path_step Al aBl) (a, p, t) zs
     = (fst (foldl (path_step Al aBl) (a, p, t) zs), last (p # zs), t + length zs)"
proof (induction zs arbitrary: a p t)
  case Nil
  then show ?case by simp
next
  case (Cons z zs)
  show ?case
    using Cons.IH [of "fl_add (fl_add a (Al ! p ! z)) (aBl ! t ! z)" z "t + 1"]
    by (simp add: path_step_def)
qed

lemma path_loglik_snoc:
  assumes "zs \<noteq> []"
  shows "path_loglik pi0l Al aBl (zs @ [k])
     = fl_add (fl_add (path_loglik pi0l Al aBl zs) (Al ! last zs ! k)) (aBl ! length zs ! k)"
proof -
  obtain z0 zs' where zs: "zs = z0 # zs'" using assms by (cases zs) auto
  let ?s0 = "(fl_add (pi0l ! z0) (aBl ! 0 ! z0), z0, 1::nat)"
  have "foldl (path_step Al aBl) ?s0 (zs' @ [k])
      = path_step Al aBl (foldl (path_step Al aBl) ?s0 zs') k" by simp
  also have "\<dots> = path_step Al aBl
      (fst (foldl (path_step Al aBl) ?s0 zs'), last (z0 # zs'), 1 + length zs') k"
    using path_step_fold [of Al aBl _ z0 1 zs'] by simp
  finally show ?thesis using zs by (simp add: path_step_def)
qed

lemma path_loglik_single: "path_loglik pi0l Al aBl [k] = fl_add (pi0l ! k) (aBl ! 0 ! k)"
  by simp

lemma logmat_nth: "logmat X \<Longrightarrow> i < length X \<Longrightarrow> j < length (X ! i) \<Longrightarrow> logval (X ! i ! j)"
  by (simp add: logmat_def list_all_length)

lemma finite_paths [simp]: "finite (paths K n)"
proof -
  have "paths K n = {z. set z \<subseteq> {..<K} \<and> length z = n}" by (auto simp: paths_def)
  then show ?thesis by (simp add: finite_lists_length_eq)
qed

lemma paths_0 [simp]: "paths K 0 = {[]}"
  by (auto simp: paths_def)

lemma paths_Suc: "paths K (Suc n) = (\<lambda>(zs, j). zs @ [j]) ` (paths K n \<times> {..<K})"
proof (intro set_eqI iffI)
  fix z assume "z \<in> paths K (Suc n)"
  then have z: "length z = Suc n" "set z \<subseteq> {..<K}" by (simp_all add: paths_def)
  then have "z \<noteq> []" by auto
  then have "z = butlast z @ [last z]" by simp
  moreover have "butlast z \<in> paths K n"
    using z by (auto simp: paths_def dest: in_set_butlastD)
  moreover have "last z < K" using z \<open>z \<noteq> []\<close> by (meson last_in_set lessThan_iff subsetD)
  ultimately show "z \<in> (\<lambda>(zs, j). zs @ [j]) ` (paths K n \<times> {..<K})"
    by (metis (no_types, lifting) SigmaI case_prod_conv image_eqI lessThan_iff)
next
  fix z assume "z \<in> (\<lambda>(zs, j). zs @ [j]) ` (paths K n \<times> {..<K})"
  then show "z \<in> paths K (Suc n)" by (auto simp: paths_def)
qed

lemma sum_paths_Suc:
  fixes f :: "nat list \<Rightarrow> real"
  shows "(\<Sum>z \<in> paths K (Suc n). f z) = (\<Sum>zs \<in> paths K n. \<Sum>j < K. f (zs @ [j]))"
proof -
  have inj: "inj_on (\<lambda>(zs, j). zs @ [j]) (paths K n \<times> {..<K})"
    by (auto simp: inj_on_def)
  have "(\<Sum>z \<in> paths K (Suc n). f z)
      = (\<Sum>p \<in> paths K n \<times> {..<K}. f ((\<lambda>(zs, j). zs @ [j]) p))"
    unfolding paths_Suc using inj by (simp add: sum.reindex)
  also have "\<dots> = (\<Sum>zs \<in> paths K n. \<Sum>j < K. f (zs @ [j]))"
    by (simp add: sum.cartesian_product case_prod_unfold)
  finally show ?thesis .
qed

lemma path_loglik_logval:
  assumes "list_all logval pi0l" "length pi0l = K" "shape K K Al" "logmat Al"
    and "shape T K aBl" "logmat aBl"
  shows "z \<in> paths K n \<Longrightarrow> 0 < n \<Longrightarrow> n \<le> T \<Longrightarrow> logval (path_loglik pi0l Al aBl z)"
proof (induction z arbitrary: n rule: rev_induct)
  case Nil
  then show ?case by (simp add: paths_def)
next
  case (snoc k zs)
  have k: "k < K" using snoc.prems(1) by (auto simp: paths_def)
  have len: "length zs < T" using snoc.prems by (auto simp: paths_def)
  have bk: "logval (aBl ! length zs ! k)"
    using assms(5,6) len k by (intro logmat_nth) (simp_all add: shape_length shape_nth)
  show ?case
  proof (cases "zs = []")
    case True
    have "logval (pi0l ! k)" using assms(1,2) k by (simp add: list_all_length)
    then show ?thesis using True bk by (simp add: logval_fl_add)
  next
    case False
    then have lz: "last zs < K" using snoc.prems(1)
      by (metis (no_types, lifting) Un_iff last_in_set lessThan_iff mem_Collect_eq paths_def set_append subsetD)
    have "zs \<in> paths K (length zs)" using snoc.prems(1) by (auto simp: paths_def)
    then have IH: "logval (path_loglik pi0l Al aBl zs)"
      using False len by (intro snoc.IH [of "length zs"]) auto
    have "logval (Al ! last zs ! k)"
      using assms(3,4) lz k by (intro logmat_nth) (simp_all add: shape_length shape_nth)
    then show ?thesis using False IH bk by (simp add: path_loglik_snoc logval_fl_add)
  qed
qed

lemma forward_paths:
  assumes pi: "list_all logval pi0l" "length pi0l = K"
    and A: "shape K K Al" "logmat Al"
    and B: "shape T K aBl" "logmat aBl"
    and r0: "shape T K res" "res ! 0 = vadd pi0l (aBl ! 0)"
    and rec: "\<forall>t. t + 1 < T \<longrightarrow> res ! (t + 1)
          = vadd (logaddexp_reduce1 (map (\<lambda>col. vadd (res ! t) col) (np_T Al))) (aBl ! (t + 1))"
  shows "t < T \<Longrightarrow> k < K \<Longrightarrow>
    logval (res ! t ! k) \<and>
    lin (res ! t ! k) = (\<Sum>zs \<in> paths K t. lin (path_loglik pi0l Al aBl (zs @ [k])))"
proof (induction t arbitrary: k)
  case 0
  have "logval (pi0l ! k)" using pi 0 by (simp add: list_all_length)
  moreover have "logval (aBl ! 0 ! k)"
    using B 0 by (intro logmat_nth) (simp_all add: shape_length shape_nth)
  moreover have "res ! 0 ! k = fl_add (pi0l ! k) (aBl ! 0 ! k)"
    using r0(2) pi(2) B(1) 0 by (simp add: nth_vadd shape_nth)
  ultimately show ?case by (simp add: logval_fl_add)
next
  case (Suc t)
  let ?pl = "path_loglik pi0l Al aBl"
  have tT: "t < T" using Suc.prems by simp
  have IH: "logval (res ! t ! j)"
    "lin (res ! t ! j) = (\<Sum>zs \<in> paths K t. lin (?pl (zs @ [j])))" if "j < K" for j
    using Suc.IH [OF tT that] by simp_all
  have bk: "logval (aBl ! Suc t ! k)"
    using B Suc.prems by (intro logmat_nth) (simp_all add: shape_length shape_nth)
  have ajk: "logval (Al ! j ! k)" if "j < K" for j
    using A that Suc.prems by (intro logmat_nth) (simp_all add: shape_length shape_nth)
  have row: "res ! Suc t ! k
      = fl_add (logaddexp_reduce (map (\<lambda>j. fl_add (res ! t ! j) (Al ! j ! k)) [0..<K]))
          (aBl ! Suc t ! k)"
    using rec Suc.prems hmm_forwards_row_nth(2) [OF A(1) shape_nth [OF r0(1) tT]
        shape_nth [OF B(1) Suc.prems(1)] Suc.prems(2)]
    by simp
  have terms: "list_all logval (map (\<lambda>j. fl_add (res ! t ! j) (Al ! j ! k)) [0..<K])"
    using IH(1) ajk by (simp add: list_all_iff logval_fl_add)
  have lse: "logval (logaddexp_reduce (map (\<lambda>j. fl_add (res ! t ! j) (Al ! j ! k)) [0..<K]))"
    "lin (logaddexp_reduce (map (\<lambda>j. fl_add (res ! t ! j) (Al ! j ! k)) [0..<K]))
       = (\<Sum>j < K. lin (res ! t ! j) * lin (Al ! j ! k))"
  proof -
    show "logval (logaddexp_reduce (map (\<lambda>j. fl_add (res ! t ! j) (Al ! j ! k)) [0..<K]))"
      using terms by (rule logaddexp_reduce_lin)
    have "lin (logaddexp_reduce (map (\<lambda>j. fl_add (res ! t ! j) (Al ! j ! k)) [0..<K]))
       = sum_list (map (\<lambda>j. lin (fl_add (res ! t ! j) (Al ! j ! k))) [0..<K])"
      using logaddexp_reduce_lin(2) [OF terms] by (simp add: comp_def)
    also have "\<dots> = (\<Sum>j \<in> set [0..<K]. lin (fl_add (res ! t ! j) (Al ! j ! k)))"
      by (rule interv_sum_list_conv_sum_set_nat)
    also have "\<dots> = (\<Sum>j < K. lin (res ! t ! j) * lin (Al ! j ! k))"
      using IH(1) ajk by (intro sum.cong) (auto simp: logval_fl_add)
    finally show "lin (logaddexp_reduce (map (\<lambda>j. fl_add (res ! t ! j) (Al ! j ! k)) [0..<K]))
       = (\<Sum>j < K. lin (res ! t ! j) * lin (Al ! j ! k))" .
  qed
  have snoc: "lin (?pl ((zs @ [j]) @ [k]))
      = lin (?pl (zs @ [j])) * lin (Al ! j ! k) * lin (aBl ! Suc t ! k)"
    if "zs \<in> paths K t" "j < K" for zs j
  proof -
    have "zs @ [j] \<in> paths K (Suc t)" using that by (auto simp: paths_def)
    then have lv: "logval (?pl (zs @ [j]))"
      using Suc.prems(1) by (intro path_loglik_logval [OF pi A B]) auto
    have len: "length zs = t" using that(1) by (simp add: paths_def)
    have "?pl ((zs @ [j]) @ [k])
        = fl_add (fl_add (?pl (zs @ [j])) (Al ! j ! k)) (aBl ! Suc t ! k)"
      using path_loglik_snoc [of "zs @ [j]" pi0l Al aBl k] len by simp
    then show ?thesis using lv ajk [OF that(2)] bk by (simp add: logval_fl_add)
  qed
  have "lin (res ! Suc t ! k)
      = (\<Sum>j < K. lin (res ! t ! j) * lin (Al ! j ! k)) * lin (aBl ! Suc t ! k)"
    using row lse bk by (simp add: logval_fl_add)
  also have "\<dots> = (\<Sum>j < K. (\<Sum>zs \<in> paths K t. lin (?pl (zs @ [j]))) * lin (Al ! j ! k))
        * lin (aBl ! Suc t ! k)"
    using IH(2) by simp
  also have "\<dots> = (\<Sum>j < K. \<Sum>zs \<in> paths K t.
        lin (?pl (zs @ [j])) * lin (Al ! j ! k) * lin (aBl ! Suc t ! k))"
    by (simp add: sum_distrib_right)
  also have "\<dots> = (\<Sum>zs \<in> paths K t. \<Sum>j < K.
        lin (?pl (zs @ [j])) * lin (Al ! j ! k) * lin (aBl ! Suc t ! k))"
    by (rule sum.swap)
  also have "\<dots> = (\<Sum>zs \<in> paths K t. \<Sum>j < K. lin (?pl ((zs @ [j]) @ [k])))"
    using snoc by (intro sum.cong) auto
  also have "\<dots> = (\<Sum>zs \<in> paths K (Suc t). lin (?pl (zs @ [k])))"
    by (simp add: sum_paths_Suc)
  finally have "lin (res ! Suc t ! k) = (\<Sum>zs \<in> paths K (Suc t). lin (?pl (zs @ [k])))" .
  moreover have "logval (res ! Suc t ! k)" using row lse(1) bk by (simp add: logval_fl_add)
  ultimately show ?case by simp
qed

lemma logmat_np_log: "list_all (list_all prob) X \<Longrightarrow> logmat (np_log X)"
  by (simp add: logmat_def np_log_def list_all_length logval_fl_log)

lemma set_n_lists_paths: "set (List.n_lists n [0..<K]) = paths K n"
  by (auto simp: set_n_lists paths_def)

lemma forward_total:
  assumes pi: "list_all logval pi0l" "length pi0l = K"
    and A: "shape K K Al" "logmat Al"
    and B: "shape T K aBl" "logmat aBl"
    and r0: "shape T K res" "res ! 0 = vadd pi0l (aBl ! 0)"
    and rec: "\<forall>t. t + 1 < T \<longrightarrow> res ! (t + 1)
          = vadd (logaddexp_reduce1 (map (\<lambda>col. vadd (res ! t) col) (np_T Al))) (aBl ! (t + 1))"
    and T: "0 < T"
  shows "logaddexp_reduce (res ! (T - 1))
    = logaddexp_reduce (map (path_loglik pi0l Al aBl) (List.n_lists T [0..<K]))"
proof -
  let ?pl = "path_loglik pi0l Al aBl"
  let ?row = "res ! (T - 1)"
  note fp = forward_paths [OF pi A B r0 rec, of "T - 1"]
  have lrow: "length ?row = K" using r0(1) T by (intro shape_nth) auto
  have row_lv: "list_all logval ?row"
    using fp T lrow by (simp add: list_all_length)
  have "sum_list (map lin ?row) = (\<Sum>k < K. lin (?row ! k))"
    using lrow by (simp add: sum_list_sum_nth atLeast0LessThan)
  also have "\<dots> = (\<Sum>k < K. \<Sum>zs \<in> paths K (T - 1). lin (?pl (zs @ [k])))"
    using fp T by (intro sum.cong) auto
  also have "\<dots> = (\<Sum>zs \<in> paths K (T - 1). \<Sum>k < K. lin (?pl (zs @ [k])))"
    by (rule sum.swap)
  also have "\<dots> = (\<Sum>z \<in> paths K (Suc (T - 1)). lin (?pl z))"
    by (simp add: sum_paths_Suc)
  finally have lhs: "sum_list (map lin ?row) = (\<Sum>z \<in> paths K T. lin (?pl z))"
    using T by simp
  have all_lv: "list_all logval (map ?pl (List.n_lists T [0..<K]))"
    using path_loglik_logval [OF pi A B, of _ T] T
    by (auto simp: list_all_iff set_n_lists_paths)
  have "sum_list (map lin (map ?pl (List.n_lists T [0..<K])))
      = (\<Sum>z \<in> set (List.n_lists T [0..<K]). lin (?pl z))"
    using distinct_n_lists [of "[0..<K]" T]
    by (simp add: sum_list_distinct_conv_sum_set comp_def)
  then have rhs: "sum_list (map lin (map ?pl (List.n_lists T [0..<K])))
      = (\<Sum>z \<in> paths K T. lin (?pl z))"
    by (simp add: set_n_lists_paths)
  show ?thesis
  proof (rule lin_inj)
    show "logval (logaddexp_reduce ?row)" using row_lv by (rule logaddexp_reduce_lin)
    show "logval (logaddexp_reduce (map ?pl (List.n_lists T [0..<K])))"
      using all_lv by (rule logaddexp_reduce_lin)
    show "lin (logaddexp_reduce ?row)
        = lin (logaddexp_reduce (map ?pl (List.n_lists T [0..<K])))"
      using logaddexp_reduce_lin(2) [OF row_lv] logaddexp_reduce_lin(2) [OF all_lv] lhs rhs
      by simp
  qed
qed

text \<open>
  C2. For a model of \<open>K\<close> states and every table \<open>aBl\<close> of \<open>T \<ge> 1\<close> rows and \<open>K\<close> columns,
  \<open>HMMStatesPython.messages_forwards\<close> returns a table \<open>alphal\<close> of \<open>aBl\<close>'s own shape (the
  method has no other source of \<open>T\<close>) with \<open>alphal[0,k] = log(pi0[k]) + aBl[0,k]\<close> and, for
  \<open>1 \<le> t < T\<close>, \<open>alphal[t,k] = logsumexp_j(alphal[t-1,j] + log A[j,k]) + aBl[t,k]\<close>. When
  \<open>pi0\<close> and \<open>A\<close> hold probabilities and \<open>aBl\<close> holds log-likelihoods (finite or \<open>-inf\<close>),
  \<open>logsumexp(alphal[T-1])\<close> equals the brute-force log marginal likelihood over all \<open>K^T\<close>
  paths (with exact real arithmetic in place of rounded floating point).
\<close>

theorem hmm_forward_messages:
  assumes "state_dim m = K" "length (pi_0 m) = K" "shape K K (trans_A m)"
    and "shape T K aBl" "0 < T"
  shows "\<exists>alphal. hmm_messages_forwards m aBl = Inr alphal
     \<and> shape (length aBl) K alphal
     \<and> (\<forall>k < K. alphal ! 0 ! k = fl_add (fl_log (pi_0 m ! k)) (aBl ! 0 ! k))
     \<and> (\<forall>t k. 1 \<le> t \<and> t < T \<and> k < K \<longrightarrow>
           alphal ! t ! k
           = fl_add (logaddexp_reduce
                       (map (\<lambda>j. fl_add (alphal ! (t - 1) ! j) (fl_log (trans_A m ! j ! k)))
                          [0..<K]))
               (aBl ! t ! k))
     \<and> (list_all prob (pi_0 m) \<and> list_all (list_all prob) (trans_A m) \<and> logmat aBl \<longrightarrow>
           logaddexp_reduce (alphal ! (T - 1)) = brute_force_loglik m aBl)"
proof -
  define Al where "Al = np_log (trans_A m)"
  define pi0l where "pi0l = map fl_log (pi_0 m)"
  define a0 where "a0 = (zeros2 T K)[0 := vadd pi0l (aBl ! 0)]"
  define res where "res = foldl (hmm_forwards_step Al aBl) a0 [0..<T - 1]"
  have lT: "length aBl = T" using assms(4) by (rule shape_length)
  have shA: "shape K K Al" using assms(3) by (simp add: Al_def)
  have lpi: "length pi0l = K" using assms(2) by (simp add: pi0l_def)
  have sha0: "shape T K a0"
    unfolding a0_def using lpi shape_nth [OF assms(4,5)] by (intro shape_update) auto
  have ret: "hmm_messages_forwards m aBl = Inr res"
    using lT assms(1,5)
    by (simp add: hmm_messages_forwards_def Let_def res_def a0_def Al_def pi0l_def)
  have fold: "shape T K res \<and> res ! 0 = a0 ! 0
    \<and> (\<forall>t < T - 1. res ! (t + 1)
          = vadd (logaddexp_reduce1 (map (\<lambda>col. vadd (res ! t) col) (np_T Al))) (aBl ! (t + 1)))
    \<and> (\<forall>t. T - 1 < t \<longrightarrow> res ! t = a0 ! t)"
    unfolding res_def using shA assms(4) sha0 assms(5) by (intro hmm_forwards_fold) auto
  have sh: "shape T K res" using fold by simp
  have r0: "res ! 0 = vadd pi0l (aBl ! 0)" using fold assms(5) by (simp add: a0_def)
  have rec: "\<forall>t. t + 1 < T \<longrightarrow> res ! (t + 1)
          = vadd (logaddexp_reduce1 (map (\<lambda>col. vadd (res ! t) col) (np_T Al))) (aBl ! (t + 1))"
    using fold by auto
  have first: "\<forall>k < K. res ! 0 ! k = fl_add (fl_log (pi_0 m ! k)) (aBl ! 0 ! k)"
    using r0 lpi shape_nth [OF assms(4,5)] assms(2) by (simp add: nth_vadd pi0l_def)
  have later: "res ! t ! k
           = fl_add (logaddexp_reduce
                       (map (\<lambda>j. fl_add (res ! (t - 1) ! j) (fl_log (trans_A m ! j ! k)))
                          [0..<K]))
               (aBl ! t ! k)" if "1 \<le> t" "t < T" "k < K" for t k
  proof -
    have t1: "t - 1 < T" "t - 1 + 1 = t" using that by simp_all
    have "res ! t = vadd (logaddexp_reduce1 (map (\<lambda>col. vadd (res ! (t - 1)) col) (np_T Al)))
        (aBl ! t)"
      using rec that t1 by (metis)
    then have e1: "res ! t ! k
        = fl_add (logaddexp_reduce (map (\<lambda>j. fl_add (res ! (t - 1) ! j) (Al ! j ! k)) [0..<K]))
            (aBl ! t ! k)"
      using hmm_forwards_row_nth(2) [OF shA shape_nth [OF sh t1(1)]
          shape_nth [OF assms(4) that(2)] that(3)] by simp
    have e2: "map (\<lambda>j. fl_add (res ! (t - 1) ! j) (Al ! j ! k)) [0..<K]
        = map (\<lambda>j. fl_add (res ! (t - 1) ! j) (fl_log (trans_A m ! j ! k))) [0..<K]"
      using assms(3) that(3)
      by (intro map_cong) (auto simp: Al_def nth_np_log shape_length shape_nth)
    show ?thesis by (simp only: e1 e2)
  qed
  have brute: "logaddexp_reduce (res ! (T - 1)) = brute_force_loglik m aBl"
    if "list_all prob (pi_0 m) \<and> list_all (list_all prob) (trans_A m) \<and> logmat aBl"
  proof -
    have pi: "list_all logval pi0l"
      using that by (simp add: pi0l_def list_all_length logval_fl_log)
    have lA: "logmat Al" using that by (simp add: Al_def logmat_np_log)
    have "logaddexp_reduce (res ! (T - 1))
        = logaddexp_reduce (map (path_loglik pi0l Al aBl) (List.n_lists T [0..<K]))"
      using pi lpi shA lA assms(4) _ sh r0 rec assms(5)
      by (rule forward_total) (use that in simp)
    then show ?thesis
      using lT assms(1) by (simp add: brute_force_loglik_def pi0l_def Al_def)
  qed
  show ?thesis
    using ret sh first later brute lT by (intro exI [of _ res]) auto
qed

theorem hmm_forward_messages_witness:
  "\<exists>alphal. hmm_messages_forwards ex_model
        [[Fin 0, Fin (- 1)], [Fin (- 2), Fin 0], [Fin (- 1), Fin (- 1)]] = Inr alphal
     \<and> alphal ! 0 ! 1 = fl_add (fl_log (Fin 0)) (Fin (- 1))
     \<and> logaddexp_reduce (alphal ! 2)
         = brute_force_loglik ex_model
             [[Fin 0, Fin (- 1)], [Fin (- 2), Fin 0], [Fin (- 1), Fin (- 1)]]"
proof -
  let ?aBl = "[[Fin 0, Fin (- 1)], [Fin (- 2), Fin 0], [Fin (- 1), Fin (- 1)]]"
  have h: "state_dim ex_model = 2" "length (pi_0 ex_model) = 2" "shape 2 2 (trans_A ex_model)"
    "shape 3 2 ?aBl" "(0::nat) < 3"
    by (simp_all add: ex_model_def shape_def)
  have p: "list_all prob (pi_0 ex_model) \<and> list_all (list_all prob) (trans_A ex_model)
      \<and> logmat ?aBl"
    by (simp add: ex_model_def prob_def logmat_def logval_def)
  from hmm_forward_messages [OF h] p show ?thesis
    by (auto simp: ex_model_def)
qed

section \<open>The block engine on singleton blocks\<close>

lemma cumsum_int_ones:
  "cumsum_int acc (replicate n 1) = map (\<lambda>i. acc + 1 + int i) [0..<n]"
proof (induction n arbitrary: acc)
  case 0
  then show ?case by simp
next
  case (Suc n)
  have "map (\<lambda>i. acc + 1 + int i) [0..<Suc n]
      = (acc + 1) # map (\<lambda>i. acc + 1 + int (Suc i)) [0..<n]"
    by (simp add: upt_conv_Cons map_Suc_upt [symmetric] del: upt_Suc)
  also have "\<dots> = (acc + 1) # map (\<lambda>i. (acc + 1) + 1 + int i) [0..<n]"
    by simp
  finally show ?case using Suc.IH [of "acc + 1"] by simp
qed

lemma possible_durations_singletons:
  assumes "t < T"
  shows "possible_durations (replicate T 1) trunc t
     = map (\<lambda>i. 1 + int i) [0..<min (max trunc 2 - 1) (T - t)]"
proof -
  let ?m = "min (max trunc 2 - 1) (T - t)"
  have pd: "cumsum_int 0 (replicate (T - t) 1) = map (\<lambda>i. 1 + int i) [0..<T - t]"
    using cumsum_int_ones [of 0 "T - t"] by simp
  have hd: "hd (map (\<lambda>i. 1 + int i) [0..<T - t]) = 1"
    using assms by (simp add: upt_conv_Cons)
  have "filter (\<lambda>d. d < max (int trunc) (1 + 1)) (map (\<lambda>i. 1 + int i) [0..<T - t])
      = map (\<lambda>i. 1 + int i) (filter (\<lambda>i. i < max trunc 2 - 1) [0..<T - t])"
    by (auto simp: filter_map comp_def intro!: arg_cong [where f = "map _"] filter_cong)
  also have "filter (\<lambda>i. i < max trunc 2 - 1) [0..<T - t] = [0..<?m]"
  proof -
    have "filter (\<lambda>i. i < a) [0..<b] = [0..<min a b]" for a b :: nat
    proof (induction b)
      case 0
      then show ?case by simp
    next
      case (Suc b)
      show ?case
      proof (cases "b < a")
        case True
        then have "min a (Suc b) = Suc (min a b)" by simp
        then show ?thesis using Suc True by simp
      next
        case False
        then show ?thesis using Suc by (simp add: min_def)
      qed
    qed
    then show ?thesis .
  qed
  finally have fin: "filter (\<lambda>d. d < max (int trunc) (1 + 1)) (map (\<lambda>i. 1 + int i) [0..<T - t])
      = map (\<lambda>i. 1 + int i) [0..<?m]" .
  show ?thesis
    unfolding possible_durations_def Let_def drop_replicate pd hd using fin by simp
qed

lemma fl_add_zero_left [simp]: "fl_add (Fin 0) x = x"
  by (cases x) auto

lemma vadd_zeros_left: "length v = K \<Longrightarrow> vadd (zeros K) v = v"
  by (rule nth_equalityI) (auto simp: nth_vadd)

lemma sum0_single: "length v = K \<Longrightarrow> sum0 K [v] = v"
  by (simp add: sum0_def vadd_zeros_left)

lemma rows_at_prefix:
  "m \<le> length X \<Longrightarrow> rows_at X (map (\<lambda>d. d - 1) (map (\<lambda>i. 1 + int i) [0..<m])) = take m X"
  by (rule nth_equalityI) (auto simp: rows_at_def)

lemma nth_vsub: "k < length u \<Longrightarrow> k < length v \<Longrightarrow> vsub u v ! k = fl_sub (u ! k) (v ! k)"
  by (simp add: vsub_def)

lemma length_vsub [simp]: "length (vsub u v) = min (length u) (length v)"
  by (simp add: vsub_def)

lemma cp_betastarl_row_singletons:
  assumes "t < T" "length aDl = T"
  shows "cp_betastarl_row (replicate T 1) aBBl aDl trunc betal t
     = (let m = min (max trunc 2 - 1) (T - t)
        in logaddexp_reduce0
             (msub_row (hsmm_terms betal aBBl aDl m T t) (logaddexp_reduce0 (take m aDl))))"
proof -
  let ?m = "min (max trunc 2 - 1) (T - t)"
  have mT: "?m \<le> length aDl" using assms by simp
  have "length (cumsum0 (slice aBBl t (t + ?m))) = min ?m (length aBBl - t)"
    by (simp add: slice_def min.commute)
  then have "length (cumsum0 (slice aBBl t (t + ?m))) \<le> ?m"
    by (metis min.cobounded1)
  then have c: "take ?m (cumsum0 (slice aBBl t (t + ?m))) = cumsum0 (slice aBBl t (t + ?m))"
    by (rule take_all)
  show ?thesis
    unfolding cp_betastarl_row_def Let_def possible_durations_singletons [OF assms(1)]
      rows_at_prefix [OF mT] hsmm_terms_def block_cumulative_likelihoods_def
      cumulative_likelihoods_def
    using c by simp
qed

lemma nonempty_of_length: "length X = m \<Longrightarrow> 0 < m \<Longrightarrow> X \<noteq> []"
  by auto

lemma rows_of_nth:
  "length X = m \<Longrightarrow> (\<And>d. d < m \<Longrightarrow> length (X ! d) = K) \<Longrightarrow> \<forall>r \<in> set X. length r = K"
  by (auto simp: in_set_conv_nth)

lemma cp_betastarl_row_nth:
  assumes "shape T K betal" "shape T K aBBl" "shape T K aDl" "t < T" "k < K"
  shows "length (cp_betastarl_row (replicate T 1) aBBl aDl trunc betal t) = K"
    and "cp_betastarl_row (replicate T 1) aBBl aDl trunc betal t ! k
           = cp_betastarl_entry aBBl aDl (min (max trunc 2 - 1) (T - t)) betal t k"
proof -
  let ?m = "min (max trunc 2 - 1) (T - t)"
  let ?M = "hsmm_terms betal aBBl aDl ?m T t"
  let ?N = "logaddexp_reduce0 (take ?m aDl)"
  have m0: "0 < ?m" using assms(4) by simp
  have mm: "min ?m (T - t) = ?m" by simp
  have lT: "length aDl = T" using assms(3) by (rule shape_length)
  note sh = hsmm_terms_shape [OF assms(1,2,3,4,5), where trunc = ?m, unfolded mm]
  have Dne: "take ?m aDl \<noteq> []" using m0 lT assms(4) by auto
  have Drows: "\<forall>r \<in> set (take ?m aDl). length r = K"
    using assms(3) by (meson in_set_takeD shape_set)
  have lN: "length ?N = K" using Dne Drows by (rule logaddexp_reduce0_length)
  have "map (\<lambda>r. r ! k) (take ?m aDl) = map (\<lambda>d. aDl ! d ! k) [0..<?m]"
    using lT assms(4) by (intro nth_equalityI) auto
  then have Nk: "?N ! k = logaddexp_reduce (map (\<lambda>d. aDl ! d ! k) [0..<?m])"
    using logaddexp_reduce0_nth [OF Dne Drows assms(5)] by simp
  let ?X = "msub_row ?M ?N"
  have lX: "length ?X = ?m" using sh(1) by (simp add: msub_row_def)
  have Xd: "?X ! d = vsub (?M ! d) ?N" if "d < ?m" for d
  proof -
    have "d < length ?M" unfolding sh(1) by (rule that)
    then show ?thesis unfolding msub_row_def by (rule nth_map)
  qed
  have Xd1: "length (?X ! d) = K" if "d < ?m" for d
    unfolding Xd [OF that] length_vsub sh(2) [OF that] lN by (rule min.idem)
  have Xd2: "?X ! d ! k = fl_sub (?M ! d ! k) (?N ! k)" if "d < ?m" for d
    unfolding Xd [OF that]
    by (rule nth_vsub) (simp_all only: sh(2) [OF that] lN assms(5))
  have ne: "?X \<noteq> []" using lX m0 by (rule nonempty_of_length)
  have rows: "\<forall>r \<in> set ?X. length r = K"
  proof (rule rows_of_nth [OF lX])
    fix d assume "d < ?m"
    then show "length (?X ! d) = K" by (rule Xd1)
  qed
  have "map (\<lambda>r. r ! k) ?X = map (\<lambda>d. fl_sub (?M ! d ! k) (?N ! k)) [0..<?m]"
  proof (rule map_rows_nth [OF lX])
    fix d assume "d < ?m"
    then show "?X ! d ! k = fl_sub (?M ! d ! k) (?N ! k)" by (rule Xd2)
  qed
  also have "\<dots> = map (\<lambda>d. fl_sub
                        (fl_add (fl_add (betal ! (t + d) ! k)
                                   (fl_sum (map (\<lambda>s. aBBl ! s ! k) [t..<t + d + 1])))
                           (aDl ! d ! k))
                        (?N ! k)) [0..<?m]"
  proof (rule map_cong [OF refl])
    fix d assume "d \<in> set [0..<?m]"
    then have d: "d < ?m" by simp
    show "fl_sub (?M ! d ! k) (?N ! k)
        = fl_sub (fl_add (fl_add (betal ! (t + d) ! k)
                   (fl_sum (map (\<lambda>s. aBBl ! s ! k) [t..<t + d + 1])))
                 (aDl ! d ! k)) (?N ! k)"
      unfolding sh(3) [OF d] by (rule refl)
  qed
  finally have cols: "map (\<lambda>r. r ! k) ?X = map (\<lambda>d. fl_sub
                        (fl_add (fl_add (betal ! (t + d) ! k)
                                   (fl_sum (map (\<lambda>s. aBBl ! s ! k) [t..<t + d + 1])))
                           (aDl ! d ! k))
                        (?N ! k)) [0..<?m]" .
  have row: "cp_betastarl_row (replicate T 1) aBBl aDl trunc betal t = logaddexp_reduce0 ?X"
    using cp_betastarl_row_singletons [OF assms(4) lT] by (simp add: Let_def)
  show "length (cp_betastarl_row (replicate T 1) aBBl aDl trunc betal t) = K"
    unfolding row using ne rows by (rule logaddexp_reduce0_length)
  show "cp_betastarl_row (replicate T 1) aBBl aDl trunc betal t ! k
           = cp_betastarl_entry aBBl aDl (min (max trunc 2 - 1) (T - t)) betal t k"
    unfolding row logaddexp_reduce0_nth [OF ne rows assms(5)] cols Nk
    by (simp add: cp_betastarl_entry_def Let_def)
qed

lemma cp_betastarl_row_drop:
  "drop t bl = drop t bl' \<Longrightarrow>
   cp_betastarl_row lens aBBl aDl trunc bl t = cp_betastarl_row lens aBBl aDl trunc bl' t"
  by (simp add: cp_betastarl_row_def slice_def)

lemma cp_backwards_step_eq:
  "cp_backwards_step lens aBBl Al aDl trunc =
    (\<lambda>s t. (set_row (fst s) (int t - 1)
               ((\<lambda>row. logaddexp_reduce1 (map (\<lambda>a. vadd row a) Al))
                  (cp_betastarl_row lens aBBl aDl trunc (fst s) t)),
             (snd s)[t := cp_betastarl_row lens aBBl aDl trunc (fst s) t]))"
  by (intro ext) (simp add: cp_backwards_step_def Let_def)

lemma cp_backwards_fold_shape:
  "shape T (length Al) (fst s) \<Longrightarrow>
   shape T (length Al) (fst (foldl (cp_backwards_step lens aBBl Al aDl trunc) s ts))"
  by (induction ts arbitrary: s)
    (auto simp: cp_backwards_step_def Let_def set_row_def shape_update)

lemma cp_backwards_fold_length:
  "length (fst (foldl (cp_backwards_step lens aBBl Al aDl trunc) s ts)) = length (fst s)"
  by (induction ts arbitrary: s) (auto simp: cp_backwards_step_def Let_def)

lemma blocklens_singletons:
  "cp_changepoints self = singleton_changepoints T \<Longrightarrow> blocklens self = replicate T 1"
  by (rule nth_equalityI) (auto simp: blocklens_def singleton_changepoints_def)

lemma hmm_get_aBl_shape:
  "length (obs_distns m) = K \<Longrightarrow> shape (length data) K (hmm_get_aBl m data)"
  by (simp add: shape_def hmm_get_aBl_def list_all_length)

lemma cp_get_aBl_singletons:
  assumes "cp_changepoints self = singleton_changepoints (length data)"
    and "length (obs_distns (cp_model self)) = K" "state_dim (cp_model self) = K"
  shows "cp_aBBl (fst (cp_get_aBl self data)) = Some (hmm_get_aBl (cp_model self) data)"
proof -
  let ?aBl = "hmm_get_aBl (cp_model self) data"
  have sh: "shape (length data) K ?aBl" using assms(2) by (rule hmm_get_aBl_shape)
  have "map (\<lambda>(start, stop). sum0 K (slice ?aBl start stop))
          (singleton_changepoints (length data)) = ?aBl"
  proof (rule nth_equalityI)
    show "length (map (\<lambda>(start, stop). sum0 K (slice ?aBl start stop))
          (singleton_changepoints (length data))) = length ?aBl"
      using sh by (simp add: singleton_changepoints_def shape_length)
  next
    fix t assume "t < length (map (\<lambda>(start, stop). sum0 K (slice ?aBl start stop))
          (singleton_changepoints (length data)))"
    then have t: "t < length data" by (simp add: singleton_changepoints_def)
    have "slice ?aBl t (t + 1) = [?aBl ! t]"
      using t sh by (simp add: slice_def shape_length take_Suc_conv_app_nth
          Cons_nth_drop_Suc [symmetric])
    then show "map (\<lambda>(start, stop). sum0 K (slice ?aBl start stop))
          (singleton_changepoints (length data)) ! t = ?aBl ! t"
      using t shape_nth [OF sh t] by (simp add: singleton_changepoints_def sum0_single)
  qed
  then show ?thesis using assms by (simp add: cp_get_aBl_def Let_def)
qed

lemma Tblock_singletons:
  "cp_changepoints self = singleton_changepoints T \<Longrightarrow> Tblock self = T"
  by (simp add: Tblock_def singleton_changepoints_def)

lemma fl_sub_add_assoc: "fl_sub (fl_add x a) n = fl_add x (fl_sub a n)"
  by (cases x; cases a; cases n) (simp_all add: fl_sub_def)

lemma cp_renormalized_nth:
  assumes "shape T K aDl" "d < T" "k < K"
  shows "cp_renormalized aDl trunc T t ! d ! k
           = fl_sub (aDl ! d ! k) (cp_normalizer aDl trunc T t k)"
proof -
  have "d < length aDl" "length (aDl ! d) = K"
    using assms(1,2) by (simp_all add: shape_length shape_nth)
  then show ?thesis using assms(3) by (simp add: cp_renormalized_def)
qed

text \<open>
  Where the mask of the block engine keeps the durations that the exact engine sums and the
  exact engine adds no censored term, the entry computed on singleton blocks is the exact
  engine's formula on the renormalized duration table.
\<close>

lemma cp_entry_renormalized:
  assumes "shape T K aDl" "t < T" "k < K" "trunc = 1 \<or> (T < trunc \<and> \<not> censoring)"
  shows "cp_betastarl_entry aBl aDl (min (max trunc 2 - 1) (T - t)) betal t k
           = hsmm_betastarl_spec censoring aBl (cp_renormalized aDl trunc T t) aDsl trunc T betal t k"
proof -
  let ?m = "min trunc (T - t)"
  have m: "min (max trunc 2 - 1) (T - t) = ?m"
    using assms(2,4) by auto
  have nocens: "\<not> (censoring \<and> T - t < trunc)"
    using assms(2,4) by auto
  have "map (\<lambda>d. fl_sub
                (fl_add (fl_add (betal ! (t + d) ! k)
                           (fl_sum (map (\<lambda>s. aBl ! s ! k) [t..<t + d + 1])))
                   (aDl ! d ! k))
                (cp_normalizer aDl trunc T t k)) [0..<?m]
      = map (\<lambda>d. fl_add (fl_add (betal ! (t + d) ! k)
                           (fl_sum (map (\<lambda>s. aBl ! s ! k) [t..<t + d + 1])))
                   (cp_renormalized aDl trunc T t ! d ! k)) [0..<?m]"
  proof (rule map_cong [OF refl])
    fix d assume "d \<in> set [0..<?m]"
    then have d: "d < T" using assms(2) by auto
    show "fl_sub
            (fl_add (fl_add (betal ! (t + d) ! k)
                       (fl_sum (map (\<lambda>s. aBl ! s ! k) [t..<t + d + 1])))
               (aDl ! d ! k))
            (cp_normalizer aDl trunc T t k)
        = fl_add (fl_add (betal ! (t + d) ! k)
                    (fl_sum (map (\<lambda>s. aBl ! s ! k) [t..<t + d + 1])))
            (cp_renormalized aDl trunc T t ! d ! k)"
      unfolding cp_renormalized_nth [OF assms(1) d assms(3)] by (rule fl_sub_add_assoc)
  qed
  then have e: "cp_betastarl_entry aBl aDl ?m betal t k
      = logaddexp_reduce
          (map (\<lambda>d. fl_add (fl_add (betal ! (t + d) ! k)
                           (fl_sum (map (\<lambda>s. aBl ! s ! k) [t..<t + d + 1])))
                   (cp_renormalized aDl trunc T t ! d ! k)) [0..<?m])"
    by (simp only: cp_betastarl_entry_def cp_normalizer_def Let_def)
  have "hsmm_betastarl_spec censoring aBl (cp_renormalized aDl trunc T t) aDsl trunc T betal t k
      = logaddexp_reduce
          (map (\<lambda>d. fl_add (fl_add (betal ! (t + d) ! k)
                           (fl_sum (map (\<lambda>s. aBl ! s ! k) [t..<t + d + 1])))
                   (cp_renormalized aDl trunc T t ! d ! k)) [0..<?m])"
    using nocens by (simp only: hsmm_betastarl_spec_def Let_def if_False)
  then show ?thesis unfolding m e by (rule sym)
qed

text \<open>
  C9 (as amended). The changepoints are the \<open>T\<close> singleton intervals, the tables are those
  of the same model and observations, and the settings are such that the exact engine adds
  no censored term and sums the durations that pass the block engine's mask: \<open>trunc = 1\<close>,
  or censoring is off and \<open>trunc > T\<close>. Then whenever the block engine's backward pass
  returns, its messages satisfy the exact engine's recursion on the duration table
  renormalized at each step: \<open>betastarl[t,k]\<close> is the log-sum-exp over
  \<open>d < min(trunc, T-t)\<close> of \<open>betal[t+d,k] + sum_{s=t}^{t+d} aBl[s,k] + aDl[d,k] -
  normalizer[t,k]\<close> with \<open>normalizer[t,k] = logsumexp_{d < min(trunc,T-t)} aDl[d,k]\<close>,
  \<open>betal[T-1]\<close> is zero and \<open>betal[t-1] = logsumexp_j(betastarl[t,j] + Al[.,j])\<close>.
\<close>

theorem cp_singleton_messages:
  assumes "cp_changepoints self = singleton_changepoints (length data)"
    and "length (obs_distns (cp_model self)) = K" "state_dim (cp_model self) = K"
    and "shape (length data) K aDl" "length Al = K"
    and "tr = (case trunc of None \<Rightarrow> cp_T self | Some v \<Rightarrow> v)"
    and "tr = 1 \<or> (length data < tr \<and> \<not> cp_censoring self)"
    and "cp_messages_backwards (fst (cp_get_aBl self data)) Al aDl aDsl trunc
           = Inr (self', betal, betastarl)"
  shows "(\<forall>t < length data. \<forall>k < K.
            betastarl ! t ! k
            = hsmm_betastarl_spec (cp_censoring self) (hmm_get_aBl (cp_model self) data)
                (cp_renormalized aDl tr (length data) t) aDsl tr (length data) betal t k)
     \<and> betal ! (length data - 1) = zeros K
     \<and> (\<forall>t < length data. 0 < t \<longrightarrow>
            betal ! (t - 1) = logaddexp_reduce1 (map (\<lambda>a. vadd (betastarl ! t) a) Al))"
proof -
  define T where "T = length data"
  define aBl where "aBl = hmm_get_aBl (cp_model self) data"
  define self1 where "self1 = fst (cp_get_aBl self data)"
  define lens where "lens = (replicate T 1 :: int list)"
  define s where "s = cp_backwards_loop lens aBl Al aDl tr T"
  have tr: "(case trunc of None \<Rightarrow> cp_T self | Some v \<Rightarrow> v) = tr"
    using assms(6) by simp
  have cps: "cp_changepoints self1 = singleton_changepoints T"
    using assms(1) by (simp add: self1_def cp_get_aBl_def Let_def T_def)
  have aBBl: "cp_aBBl self1 = Some aBl"
    unfolding self1_def aBl_def using assms(1,2,3) by (rule cp_get_aBl_singletons)
  have cT: "cp_T self1 = cp_T self" by (simp add: self1_def cp_get_aBl_def Let_def)
  have shB: "shape T K aBl" unfolding aBl_def T_def using assms(2) by (rule hmm_get_aBl_shape)
  have shD: "shape T K aDl" using assms(4) by (simp add: T_def)
  have bl: "blocklens self1 = lens" unfolding lens_def using cps by (rule blocklens_singletons)
  have tb: "Tblock self1 = T" using cps by (rule Tblock_singletons)
  have ret: "0 < T \<and> betal = (fst s)[T - 1 := zeros K] \<and> betastarl = snd s"
  proof -
    have "cp_messages_backwards self1 Al aDl aDsl trunc = Inr (self', betal, betastarl)"
      using assms(8) by (simp add: self1_def)
    then show ?thesis
      unfolding cp_messages_backwards_def Let_def bl tb aBBl cT tr s_def
      using assms(5)
      by (auto simp: set_row_def cp_backwards_loop_def cp_backwards_fold_length
          split: if_splits)
  qed
  then have T0: "0 < T" by simp
  have sh: "shape T K betal"
    using ret cp_backwards_fold_shape [of T Al "(zeros2 T (length Al), zeros2 T (length Al))"]
      assms(5) by (simp add: s_def cp_backwards_loop_def shape_update)
  have inv: "(\<forall>t < T. snd s ! t = cp_betastarl_row lens aBl aDl tr ((fst s)[T - 1 := zeros K]) t)
       \<and> (\<forall>t < T. 0 < t \<longrightarrow> (fst s)[T - 1 := zeros K] ! (t - 1)
              = (\<lambda>row. logaddexp_reduce1 (map (\<lambda>a. vadd row a) Al)) (snd s ! t))"
  proof (rule backwards_fold_inv [where n = T and bl = "zeros2 T K" and bs = "zeros2 T K"])
    show "cp_betastarl_row lens aBl aDl tr bl t = cp_betastarl_row lens aBl aDl tr bl' t"
      if "drop t bl = drop t bl'" for bl bl' t
      using that by (rule cp_betastarl_row_drop)
    show "s = foldl (\<lambda>s t. (set_row (fst s) (int t - 1)
               (logaddexp_reduce1 (map (\<lambda>a. vadd (cp_betastarl_row lens aBl aDl tr (fst s) t) a) Al)),
             (snd s)[t := cp_betastarl_row lens aBl aDl tr (fst s) t]))
           (zeros2 T K, zeros2 T K) (rev [0..<T])"
      using assms(5) by (simp add: s_def cp_backwards_loop_def cp_backwards_step_eq)
  qed (use T0 in auto)
  have cond: "tr = 1 \<or> (T < tr \<and> \<not> cp_censoring self)"
    using assms(7) by (simp add: T_def)
  have rows: "\<forall>t < T. \<forall>k < K. betastarl ! t ! k
      = hsmm_betastarl_spec (cp_censoring self) aBl (cp_renormalized aDl tr T t) aDsl tr T betal t k"
  proof (intro allI impI)
    fix t k assume t: "t < T" and k: "k < K"
    have "betastarl ! t = cp_betastarl_row (replicate T 1) aBl aDl tr betal t"
      using inv ret t by (simp add: lens_def)
    then have "betastarl ! t ! k
        = cp_betastarl_entry aBl aDl (min (max tr 2 - 1) (T - t)) betal t k"
      using cp_betastarl_row_nth(2) [OF sh shB shD t k] by simp
    then show "betastarl ! t ! k
        = hsmm_betastarl_spec (cp_censoring self) aBl (cp_renormalized aDl tr T t) aDsl tr T
            betal t k"
      using cp_entry_renormalized [OF shD t k cond] by simp
  qed
  have last: "betal ! (T - 1) = zeros K"
    using ret T0 by (simp add: s_def cp_backwards_loop_def cp_backwards_fold_length)
  have mix: "\<forall>t < T. 0 < t \<longrightarrow>
            betal ! (t - 1) = logaddexp_reduce1 (map (\<lambda>a. vadd (betastarl ! t) a) Al)"
    using inv ret by simp
  show ?thesis
    using rows last mix by (simp add: T_def aBl_def)
qed

lemmas cp_eval_defs =
  cp_messages_backwards_def cp_get_aBl_def Let_def ex_cp_self_def ex_model_def
  singleton_changepoints_def hmm_get_aBl_def ex_obs0_def ex_obs1_def Tblock_def blocklens_def
  possible_durations_def index_ok_def cp_backwards_loop_def cp_backwards_step_def
  cp_betastarl_row_def rows_at_def msub_row_def block_cumulative_likelihoods_def
  slice_def sum0_def zeros_def zeros2_def vadd_def vsub_def madd_def set_row_def
  logaddexp_reduce1_def fl_sub_def fl_isnan_def py_index_def numeral_2_eq_2 vlogaddexp_def

text \<open>
  One observation, two states, \<open>trunc = T = 1\<close>, duration pmf \<open>1/2\<close> at duration 1: the block
  engine returns \<open>betastarl = [[0, ln(1/2)]]\<close>, the exact engine
  \<open>[[ln(1/2), ln(1/2) + ln(1/2)]]\<close>.
\<close>

theorem cp_singleton_counterexample:
  "map_sum id snd (cp_messages_backwards (fst (cp_get_aBl (ex_cp_self 1) [0]))
      [[NInf, Fin 0], [Fin 0, NInf]] [[Fin (ln (1 / 2)), Fin (ln (1 / 2))]]
      [[Fin (ln (1 / 2)), Fin (ln (1 / 2))]] (Some 1))
     = Inr ([[Fin 0, Fin 0]], [[Fin 0, Fin (ln (1 / 2))]])
   \<and> hsmm_messages_backwards True (hmm_get_aBl ex_model [0])
      [[NInf, Fin 0], [Fin 0, NInf]] [[Fin (ln (1 / 2)), Fin (ln (1 / 2))]]
      [[Fin (ln (1 / 2)), Fin (ln (1 / 2))]] (Some 1)
     = Inr ([[Fin 0, Fin 0]], [[Fin (ln (1 / 2)), Fin (ln (1 / 2) + ln (1 / 2))]])"
  by (simp add: cp_eval_defs hsmm_messages_backwards_def hsmm_backwards_loop_def
      hsmm_backwards_step_def hsmm_betastarl_row_def cumulative_likelihoods_def)

theorem cp_singleton_messages_witness:
  "\<exists>self' betal betastarl.
     cp_messages_backwards (fst (cp_get_aBl ((ex_cp_self 2)\<lparr>cp_censoring := False\<rparr>) [0, 1]))
       [[NInf, Fin 0], [Fin 0, NInf]]
       [[Fin (ln (1 / 2)), Fin (ln (1 / 2))], [Fin (ln (1 / 4)), Fin (ln (1 / 4))]]
       [[Fin (ln (1 / 2)), Fin (ln (1 / 2))], [Fin (ln (1 / 4)), Fin (ln (1 / 4))]] (Some 3)
       = Inr (self', betal, betastarl)
     \<and> betastarl ! 0 ! 0
         = hsmm_betastarl_spec False (hmm_get_aBl ex_model [0, 1])
             (cp_renormalized
                [[Fin (ln (1 / 2)), Fin (ln (1 / 2))], [Fin (ln (1 / 4)), Fin (ln (1 / 4))]]
                3 2 0)
             [[Fin (ln (1 / 2)), Fin (ln (1 / 2))], [Fin (ln (1 / 4)), Fin (ln (1 / 4))]]
             3 2 betal 0 0
     \<and> betal ! 1 = zeros 2
     \<and> betal ! 0 = logaddexp_reduce1 (map (\<lambda>a. vadd (betastarl ! 1) a)
                        [[NInf, Fin 0], [Fin 0, NInf]])"
proof -
  let ?Al = "[[NInf, Fin 0], [Fin 0, NInf]]"
  let ?aDl = "[[Fin (ln (1 / 2)), Fin (ln (1 / 2))], [Fin (ln (1 / 4)), Fin (ln (1 / 4))]]"
  let ?self = "(ex_cp_self 2)\<lparr>cp_censoring := False\<rparr>"
  obtain self' betal betastarl where r:
    "cp_messages_backwards (fst (cp_get_aBl ?self [0, 1])) ?Al ?aDl ?aDl (Some 3)
       = Inr (self', betal, betastarl)"
    by (simp add: cp_eval_defs)
  have h: "cp_changepoints ?self = singleton_changepoints (length [0::nat, 1])"
    "length (obs_distns (cp_model ?self)) = 2"
    "state_dim (cp_model ?self) = 2"
    "shape (length [0::nat, 1]) 2 ?aDl" "length ?Al = 2"
    "3 = (case Some 3 of None \<Rightarrow> cp_T ?self | Some v \<Rightarrow> v)"
    "3 = 1 \<or> (length [0::nat, 1] < 3 \<and> \<not> cp_censoring ?self)"
    by (simp_all add: ex_cp_self_def ex_model_def shape_def numeral_2_eq_2)
  from cp_singleton_messages [OF h r] r show ?thesis
    by (auto simp: ex_cp_self_def numeral_2_eq_2)
qed

end
